theory Spec2Isabelle
  imports Main "HOL-Library.Word"
begin

unbundle bit_operations_syntax

section \<open>Bytes and errors\<close>

type_synonym byte = "8 word"

text \<open>
  Go errors are values built by \<open>fmt.Errorf\<close>; every distinct message of the modelled
  functions is one constructor, carrying the numbers the message prints. Where a caller
  wraps an error of its callee with a prefix (\<open>%w\<close>), the model returns the wrapped
  error itself.
\<close>

datatype error =
    ErrReadCellHeader              \<comment> \<open>read cell header\<close>
  | ErrReadVarlenLength            \<comment> \<open>read varlen length\<close>
  | ErrVarPayloadTooLarge nat      \<comment> \<open>variable-length cell payload too large\<close>
  | ErrReadVarlenPayload           \<comment> \<open>read varlen payload\<close>
  | ErrReadFixedPayload            \<comment> \<open>read fixed payload\<close>
  | ErrReadVersionsHeader          \<comment> \<open>read versions header\<close>
  | ErrExpectedVersions byte       \<comment> \<open>expected VERSIONS (7), got command\<close>
  | ErrReadVersionsPayload         \<comment> \<open>read versions payload\<close>
  | ErrLinkWrite                   \<comment> \<open>the error of the connection's \<open>Write\<close>\<close>
  | ErrNoHops                      \<comment> \<open>circuit has no hops\<close>
  | ErrRelayDataTooLarge nat       \<comment> \<open>relay data too large\<close>
  | ErrSnapshotDigest              \<comment> \<open>snapshot digest state\<close>
  | ErrRestoreDigest               \<comment> \<open>restore digest state\<close>
  | ErrRelayDataLength nat         \<comment> \<open>relay data length exceeds maximum\<close>
  | ErrNotRecognized               \<comment> \<open>relay cell not recognized at any hop\<close>
  | ErrRelayEarlyExhausted int     \<comment> \<open>RELAY_EARLY budget exhausted\<close>
  | ErrCircuitDestroyed byte       \<comment> \<open>circuit destroyed by relay (reason)\<close>
  | ErrUnexpectedCell byte         \<comment> \<open>unexpected cell command on circuit\<close>
  | ErrStreamIDExhausted           \<comment> \<open>stream ID space exhausted\<close>
  | ErrStreamRejected byte         \<comment> \<open>stream rejected: RELAY_END reason\<close>
  | ErrUnexpectedRelayCommand byte \<comment> \<open>unexpected relay command while waiting for CONNECTED\<close>
  | ErrStreamClosed                \<comment> \<open>stream closed\<close>
  | ErrSendWindowExhausted int int \<comment> \<open>send window exhausted (circ, stream)\<close>
  | ErrNoCurrentSRV                \<comment> \<open>no current SRV in consensus\<close>
  | ErrNoSRVAvailable              \<comment> \<open>no SRV available in consensus\<close>
  | ErrNoSharedRandom              \<comment> \<open>no shared random value available\<close>
  | ErrNoHSDirRelays               \<comment> \<open>no HSDir relays in consensus\<close>
  | ErrNoHSDirsSelected            \<comment> \<open>no HSDirs selected\<close>
  | ErrCurve25519                  \<comment> \<open>the error of \<open>curve25519.X25519\<close>\<close>
  | ErrZeroPoint                   \<comment> \<open>x*Y or x*B produced all-zeros point\<close>
  | ErrAuthFailed                  \<comment> \<open>AUTH verification failed\<close>
  | ErrInvalidIPv4                 \<comment> \<open>invalid IPv4 address for relay\<close>
  | ErrExpectedExtended2 byte      \<comment> \<open>expected EXTENDED2 (15), got relay command\<close>
  | ErrExtended2Short nat          \<comment> \<open>EXTENDED2 too short\<close>
  | ErrExtended2HLEN nat           \<comment> \<open>EXTENDED2 HLEN, expected 64\<close>
  | ErrExtended2Truncated nat      \<comment> \<open>EXTENDED2 truncated\<close>
  | Panic                          \<comment> \<open>run-time panic: index or slice bounds out of range\<close>

section \<open>cell: commands, constants and accessors\<close>

definition CmdVersions :: byte where "CmdVersions = 7"

definition MaxPayloadLen :: nat where "MaxPayloadLen = 509"
definition FixedCellLen :: nat where "FixedCellLen = 514"
definition MaxVarPayloadLen :: nat where "MaxVarPayloadLen = 10000"

definition IsVariableLength :: "byte \<Rightarrow> bool" where
  "IsVariableLength cmd = (cmd = CmdVersions \<or> cmd \<ge> 128)"

text \<open>\<open>binary.BigEndian.Uint16\<close> of two bytes, as a natural number.\<close>

definition Uint16 :: "byte \<Rightarrow> byte \<Rightarrow> nat" where
  "Uint16 hi lo = unat hi * 256 + unat lo"

section \<open>cell: the reader\<close>

text \<open>
  The \<open>bufio.Reader\<close> is the list of bytes the peer has still to deliver.
  \<open>io.ReadFull\<close> of \<open>n\<close> bytes returns them and advances, or fails on a stream that
  ends early (having consumed what was left).
\<close>

definition ReadFull :: "nat \<Rightarrow> byte list \<Rightarrow> byte list option \<times> byte list" where
  "ReadFull n inp = (if length inp < n then (None, []) else (Some (take n inp), drop n inp))"

definition ReadCell :: "byte list \<Rightarrow> (error + byte list) \<times> byte list" where
  "ReadCell inp =
     (case ReadFull 5 inp of
        (None, r) \<Rightarrow> (Inl ErrReadCellHeader, r)
      | (Some hdr, r) \<Rightarrow>
          let cmd = hdr ! 4 in
          if IsVariableLength cmd then
            (case ReadFull 2 r of
               (None, r2) \<Rightarrow> (Inl ErrReadVarlenLength, r2)
             | (Some lenBuf, r2) \<Rightarrow>
                 let pLen = Uint16 (lenBuf ! 0) (lenBuf ! 1) in
                 if pLen > MaxVarPayloadLen then (Inl (ErrVarPayloadTooLarge pLen), r2)
                 else if pLen > 0 then
                   (case ReadFull pLen r2 of
                      (None, r3) \<Rightarrow> (Inl ErrReadVarlenPayload, r3)
                    | (Some pl, r3) \<Rightarrow> (Inr (hdr @ lenBuf @ pl), r3))
                 else (Inr (hdr @ lenBuf), r2))
          else
            (case ReadFull (FixedCellLen - 5) r of
               (None, r2) \<Rightarrow> (Inl ErrReadFixedPayload, r2)
             | (Some pl, r2) \<Rightarrow> (Inr (hdr @ pl), r2)))"

definition ReadVersionsCell :: "byte list \<Rightarrow> (error + byte list) \<times> byte list" where
  "ReadVersionsCell inp =
     (case ReadFull 5 inp of
        (None, r) \<Rightarrow> (Inl ErrReadVersionsHeader, r)
      | (Some hdr, r) \<Rightarrow>
          if hdr ! 2 \<noteq> CmdVersions then (Inl (ErrExpectedVersions (hdr ! 2)), r)
          else
            let pLen = Uint16 (hdr ! 3) (hdr ! 4) in
            if pLen > 0 then
              (case ReadFull pLen r of
                 (None, r2) \<Rightarrow> (Inl ErrReadVersionsPayload, r2)
               | (Some pl, r2) \<Rightarrow> (Inr (hdr @ pl), r2))
            else (Inr hdr, r))"


section \<open>Stream ciphers and running hashes\<close>

text \<open>
  A \<open>cipher.Stream\<close> in counter mode is its keystream (fixed by key and IV) and the
  number of keystream bytes already used. \<open>XORKeyStream\<close> consumes one keystream
  byte per byte of input, from where the last call stopped.
\<close>

record cipher_stream =
  keystream :: "nat \<Rightarrow> byte"
  used :: nat

definition XORKeyStream :: "cipher_stream \<Rightarrow> byte list \<Rightarrow> byte list \<times> cipher_stream" where
  "XORKeyStream s src =
     (map2 (\<lambda>a b. a XOR b) src (map (keystream s) [used s ..< used s + length src]),
      s\<lparr>used := used s + length src\<rparr>)"

text \<open>
  A \<open>hash.Hash\<close> used as a running digest is the hash function (SHA-1, or SHA3-256 on
  the onion-service hop) and all bytes written so far. \<open>Sum(nil)\<close> hashes them without
  resetting. Its \<open>MarshalBinary\<close> and \<open>UnmarshalBinary\<close> return an error value, which
  the flags below make an input of the model.
\<close>

record hash_state =
  alg :: "byte list \<Rightarrow> byte list"
  absorbed :: "byte list"
  marshal_ok :: bool
  unmarshal_ok :: bool

definition hash_Write :: "hash_state \<Rightarrow> byte list \<Rightarrow> hash_state" where
  "hash_Write h p = h\<lparr>absorbed := absorbed h @ p\<rparr>"

definition hash_Sum :: "hash_state \<Rightarrow> byte list" where
  "hash_Sum h = alg h (absorbed h)"

definition MarshalBinary :: "hash_state \<Rightarrow> byte list option" where
  "MarshalBinary h = (if marshal_ok h then Some (absorbed h) else None)"

definition UnmarshalBinary :: "hash_state \<Rightarrow> byte list \<Rightarrow> hash_state option" where
  "UnmarshalBinary h st = (if unmarshal_ok h then Some (h\<lparr>absorbed := st\<rparr>) else None)"

section \<open>Link and circuit state\<close>

text \<open>
  The link's \<open>Writer\<close> is the list of cells the connection has accepted so far and,
  for every count of accepted cells, whether the connection's \<open>Write\<close> of the next cell
  fails: a connection may accept some cells and fail afterwards. Its \<open>Reader\<close> is the
  bytes still to arrive.
\<close>

record Link =
  Reader :: "byte list"
  Written :: "byte list list"
  WriteFails :: "nat \<Rightarrow> bool"

definition WriteCell :: "Link \<Rightarrow> byte list \<Rightarrow> Link \<times> error option" where
  "WriteCell l c =
     (if WriteFails l (length (Written l)) then (l, Some ErrLinkWrite)
      else (l\<lparr>Written := Written l @ [c]\<rparr>, None))"

record Hop =
  kf :: cipher_stream
  kb :: cipher_stream
  df :: hash_state
  db :: hash_state

definition MaxRelayEarly :: int where "MaxRelayEarly = 8"

record Circuit =
  ID :: "32 word"
  Link :: Link
  Hops :: "Hop list"
  RelayEarlySent :: int

definition CmdPadding :: byte where "CmdPadding = 0"
definition CmdRelay :: byte where "CmdRelay = 3"
definition CmdDestroy :: byte where "CmdDestroy = 4"
definition CmdRelayEarly :: byte where "CmdRelayEarly = 9"

definition PutUint16 :: "nat \<Rightarrow> byte list" where
  "PutUint16 n = [of_nat (n div 256), of_nat n]"

definition PutUint32 :: "32 word \<Rightarrow> byte list" where
  "PutUint32 w = [ucast (drop_bit 24 w), ucast (drop_bit 16 w), ucast (drop_bit 8 w), ucast w]"

definition NewFixedCell :: "32 word \<Rightarrow> byte \<Rightarrow> byte list" where
  "NewFixedCell circID cmd = PutUint32 circID @ [cmd] @ replicate (FixedCellLen - 5) 0"

definition Command :: "byte list \<Rightarrow> byte" where
  "Command c = c ! 4"

definition Payload :: "byte list \<Rightarrow> byte list" where
  "Payload c = (if IsVariableLength (Command c) then drop 7 c else drop 5 c)"

text \<open>Go's \<open>copy(dst[off:], src)\<close>: as many bytes as fit, the length of \<open>dst\<close> unchanged.\<close>

definition copy_at :: "byte list \<Rightarrow> nat \<Rightarrow> byte list \<Rightarrow> byte list" where
  "copy_at dst off src =
     take off dst @ take (length dst - off) src @ drop (off + length src) dst"

section \<open>circuit: relay cell framing, onion encryption and decryption\<close>

definition RelayData :: byte where "RelayData = 2"
definition RelayExtend2 :: byte where "RelayExtend2 = 14"
definition RelayExtended2 :: byte where "RelayExtended2 = 15"

definition RelayPayloadLen :: nat where "RelayPayloadLen = 509"
definition relayCommandOff :: nat where "relayCommandOff = 0"
definition relayRecognizedOff :: nat where "relayRecognizedOff = 1"
definition relayStreamIDOff :: nat where "relayStreamIDOff = 3"
definition relayDigestOff :: nat where "relayDigestOff = 5"
definition relayLengthOff :: nat where "relayLengthOff = 9"
definition relayDataOff :: nat where "relayDataOff = 11"
definition MaxRelayDataLen :: nat where "MaxRelayDataLen = 498"

text \<open>
  The plaintext relay payload of \<open>encryptRelayLocked\<close>, digest field still zero:
  header, data, four zero bytes and random bytes \<open>rnd\<close> (from \<open>rand.Read\<close>) when they
  fit, zeros otherwise.
\<close>

definition relay_plaintext :: "byte \<Rightarrow> 16 word \<Rightarrow> byte list \<Rightarrow> (nat \<Rightarrow> byte) \<Rightarrow> byte list" where
  "relay_plaintext relayCmd streamID data rnd =
     (let padStart = relayDataOff + length data;
          p0 = copy_at (replicate RelayPayloadLen 0) relayCommandOff [relayCmd];
          p1 = copy_at p0 relayStreamIDOff (PutUint16 (unat streamID));
          p2 = copy_at p1 relayLengthOff (PutUint16 (length data));
          p3 = copy_at p2 relayDataOff data
      in if padStart + 4 < RelayPayloadLen
         then copy_at p3 (padStart + 4) (map rnd [0 ..< RelayPayloadLen - (padStart + 4)])
         else p3)"

text \<open>
  The encryption loop \<open>for i := len(c.Hops) - 1; i >= 0; i--\<close>, as a recursion over the
  hops from the first: the payload passes the later hops before it passes this one.
\<close>

fun encrypt_layers :: "Hop list \<Rightarrow> byte list \<Rightarrow> Hop list \<times> byte list" where
  "encrypt_layers [] p = ([], p)"
| "encrypt_layers (h # hs) p =
     (case encrypt_layers hs p of
        (hs', p') \<Rightarrow>
          (case XORKeyStream (kf h) p' of
             (p'', k') \<Rightarrow> (h\<lparr>kf := k'\<rparr> # hs', p'')))"

definition encryptRelayLocked ::
  "Circuit \<Rightarrow> byte \<Rightarrow> 16 word \<Rightarrow> byte list \<Rightarrow> (nat \<Rightarrow> byte) \<Rightarrow> Circuit \<times> (error + byte list)" where
  "encryptRelayLocked c relayCmd streamID data rnd =
     (if length (Hops c) = 0 then (c, Inl ErrNoHops)
      else if length data > MaxRelayDataLen then (c, Inl (ErrRelayDataTooLarge (length data)))
      else
        let payload = relay_plaintext relayCmd streamID data rnd;
            hop = last (Hops c);
            df' = hash_Write (df hop) payload;
            digest = hash_Sum df';
            payload' = copy_at payload relayDigestOff (take 4 digest);
            hops1 = butlast (Hops c) @ [hop\<lparr>df := df'\<rparr>]
        in (case encrypt_layers hops1 payload' of
              (hops2, encrypted) \<Rightarrow>
                (c\<lparr>Hops := hops2\<rparr>,
                 Inr (copy_at (NewFixedCell (ID c) CmdRelay) 5 encrypted))))"

definition EncryptRelay ::
  "Circuit \<Rightarrow> byte \<Rightarrow> 16 word \<Rightarrow> byte list \<Rightarrow> (nat \<Rightarrow> byte) \<Rightarrow> Circuit \<times> (error + byte list)" where
  "EncryptRelay c relayCmd streamID data rnd = encryptRelayLocked c relayCmd streamID data rnd"

definition circuit_write :: "Circuit \<Rightarrow> byte list \<Rightarrow> Circuit \<times> error option" where
  "circuit_write c cell = (case WriteCell (Link c) cell of (l, r) \<Rightarrow> (c\<lparr>Link := l\<rparr>, r))"

definition SendRelay ::
  "Circuit \<Rightarrow> byte \<Rightarrow> 16 word \<Rightarrow> byte list \<Rightarrow> (nat \<Rightarrow> byte) \<Rightarrow> Circuit \<times> error option" where
  "SendRelay c relayCmd streamID data rnd =
     (case encryptRelayLocked c relayCmd streamID data rnd of
        (c', Inl err) \<Rightarrow> (c', Some err)
      | (c', Inr relayCell) \<Rightarrow> circuit_write c' relayCell)"

definition SendRelayEarly :: "Circuit \<Rightarrow> byte list \<Rightarrow> Circuit \<times> error option" where
  "SendRelayEarly c payload =
     (if RelayEarlySent c \<ge> MaxRelayEarly then (c, Some (ErrRelayEarlyExhausted (RelayEarlySent c)))
      else
        let c1 = c\<lparr>RelayEarlySent := RelayEarlySent c + 1\<rparr>;
            earlyCell = copy_at (NewFixedCell (ID c1) CmdRelayEarly) 5 payload
        in circuit_write c1 earlyCell)"

text \<open>The value a recognized relay cell delivers: hop index, relay command, stream id, data.\<close>

type_synonym relay_msg = "nat \<times> byte \<times> 16 word \<times> byte list"

text \<open>
  The loop \<open>for i, hop := range c.Hops\<close> of \<open>decryptRelayLocked\<close>, from hop \<open>i\<close> on.
  It returns the hops as the loop leaves them and the function's result.
\<close>

fun decrypt_hops :: "nat \<Rightarrow> Hop list \<Rightarrow> byte list \<Rightarrow> Hop list \<times> (error + relay_msg)" where
  "decrypt_hops i [] payload = ([], Inl ErrNotRecognized)"
| "decrypt_hops i (hop # hs) payload =
     (case XORKeyStream (kb hop) payload of
        (payload1, kb') \<Rightarrow>
          let hop1 = hop\<lparr>kb := kb'\<rparr>;
              recognized = Uint16 (payload1 ! relayRecognizedOff) (payload1 ! (relayRecognizedOff + 1))
          in if recognized \<noteq> 0
             then (case decrypt_hops (i + 1) hs payload1 of (hs', r) \<Rightarrow> (hop1 # hs', r))
             else
               let savedDigest = take 4 (drop relayDigestOff payload1);
                   payload2 = copy_at payload1 relayDigestOff [0, 0, 0, 0]
               in (case MarshalBinary (db hop1) of
                     None \<Rightarrow> (hop1 # hs, Inl ErrSnapshotDigest)
                   | Some dbState \<Rightarrow>
                       let db' = hash_Write (db hop1) payload2;
                           computedDigest = hash_Sum db'
                       in if savedDigest = take 4 computedDigest
                          then
                            let relayCmd = payload2 ! relayCommandOff;
                                streamID = Uint16 (payload2 ! relayStreamIDOff) (payload2 ! (relayStreamIDOff + 1));
                                dataLen = Uint16 (payload2 ! relayLengthOff) (payload2 ! (relayLengthOff + 1))
                            in if dataLen > MaxRelayDataLen
                               then (hop1\<lparr>db := db'\<rparr> # hs, Inl (ErrRelayDataLength dataLen))
                               else (hop1\<lparr>db := db'\<rparr> # hs,
                                     Inr (i, relayCmd, of_nat streamID, take dataLen (drop relayDataOff payload2)))
                          else
                            (case UnmarshalBinary db' dbState of
                               None \<Rightarrow> (hop1\<lparr>db := db'\<rparr> # hs, Inl ErrRestoreDigest)
                             | Some db'' \<Rightarrow>
                                 (case decrypt_hops (i + 1) hs payload2 of
                                    (hs', r) \<Rightarrow> (hop1\<lparr>db := db''\<rparr> # hs', r)))))"

definition decryptRelayLocked :: "Circuit \<Rightarrow> byte list \<Rightarrow> Circuit \<times> (error + relay_msg)" where
  "decryptRelayLocked c incoming =
     (if length (Hops c) = 0 then (c, Inl ErrNoHops)
      else if length incoming < 5 \<or> length (Payload incoming) < RelayPayloadLen then (c, Inl Panic)
      else
        (case decrypt_hops 0 (Hops c) (take RelayPayloadLen (Payload incoming)) of
           (hs', r) \<Rightarrow> (c\<lparr>Hops := hs'\<rparr>, r)))"

definition DecryptRelay :: "Circuit \<Rightarrow> byte list \<Rightarrow> Circuit \<times> (error + relay_msg)" where
  "DecryptRelay c incoming = decryptRelayLocked c incoming"

text \<open>
  Following the claim's words, for comparison with \<open>decryptRelayLocked\<close>:
  \<open>peeled hops p i\<close> is the payload \<open>p\<close> of the cell with the layers of the hops
  \<open>0..i\<close> removed, each by the hop's backward cipher. A hop recognizes a payload when its
  recognized field (bytes 1..3) is zero and its digest field (bytes 5..9) holds the first
  4 bytes of the hop's running backward hash, fed the payload with the digest field zeroed.
\<close>

definition recognized_zero :: "byte list \<Rightarrow> bool" where
  "recognized_zero p = (p ! 1 = 0 \<and> p ! 2 = 0)"

definition zero_digest :: "byte list \<Rightarrow> byte list" where
  "zero_digest p = p[5 := 0, 6 := 0, 7 := 0, 8 := 0]"

definition hop_recognizes :: "Hop \<Rightarrow> byte list \<Rightarrow> bool" where
  "hop_recognizes h p =
     (recognized_zero p
      \<and> take 4 (drop 5 p) = take 4 (alg (db h) (absorbed (db h) @ zero_digest p)))"

fun peeled :: "Hop list \<Rightarrow> byte list \<Rightarrow> nat \<Rightarrow> byte list" where
  "peeled [] p i = p"
| "peeled (h # hs) p 0 = fst (XORKeyStream (kb h) p)"
| "peeled (h # hs) p (Suc i) = peeled hs (fst (XORKeyStream (kb h) p)) i"

definition set_Reader :: "Circuit \<Rightarrow> byte list \<Rightarrow> Circuit" where
  "set_Reader c r = c\<lparr>Link := (Link c)\<lparr>Reader := r\<rparr>\<rparr>"

function ReceiveRelay :: "Circuit \<Rightarrow> Circuit \<times> (error + relay_msg)" where
  "ReceiveRelay c =
     (case ReadCell (Reader (Link c)) of
        (Inl e, r) \<Rightarrow> (set_Reader c r, Inl e)
      | (Inr incoming, r) \<Rightarrow>
          if Command incoming = CmdPadding then ReceiveRelay (set_Reader c r)
          else if Command incoming = CmdDestroy
            then (set_Reader c r, Inl (ErrCircuitDestroyed (Payload incoming ! 0)))
          else if Command incoming = CmdRelay \<or> Command incoming = CmdRelayEarly
            then decryptRelayLocked (set_Reader c r) incoming
          else (set_Reader c r, Inl (ErrUnexpectedCell (Command incoming))))"
  by pat_completeness auto
termination
  apply (relation "measure (\<lambda>c. length (Reader (Link c)))")
   apply simp
  apply (auto simp: ReadCell_def ReadFull_def Let_def FixedCellLen_def set_Reader_def
           split: if_splits prod.splits option.splits)
  done

declare ReceiveRelay.simps [simp del]

section \<open>stream: stream ids, Begin and Write\<close>

definition RelayBegin :: byte where "RelayBegin = 1"
definition RelayEnd :: byte where "RelayEnd = 3"
definition RelayConnected :: byte where "RelayConnected = 4"

text \<open>
  \<open>nextStreamID\<close> is a process-wide \<open>atomic.Uint32\<close>, initialised to 1. The loop at the
  head of \<open>Begin\<close> takes the counter's value (\<open>Add(1) - 1\<close>), leaves the counter one
  higher, and truncates the value to sixteen bits. The function returns the loop's outcome
  and the counter it leaves.
\<close>

definition nextStreamID_init :: "32 word" where "nextStreamID_init = 1"

function allocStreamID :: "32 word \<Rightarrow> (error + 16 word) \<times> 32 word" where
  "allocStreamID n =
     (let raw = n; sid = (ucast raw :: 16 word)
      in if sid \<noteq> 0 then (Inr sid, n + 1)
         else if raw > 0xFFFF then (Inl ErrStreamIDExhausted, n + 1)
         else allocStreamID (n + 1))"
  by pat_completeness auto
termination
  apply (relation "measure (\<lambda>n. if n = 0 then 1 else 0)")
   apply simp
  apply clarsimp
  apply (drule arg_cong [where f = unat])
  apply (simp add: unsigned_ucast_eq word_less_nat_alt not_less take_bit_nat_eq_self unat_eq_0)
  done

declare allocStreamID.simps [simp del]

text \<open>
  \<open>k\<close> successive runs of the allocation loop (as \<open>k\<close> calls of \<open>Begin\<close> make them):
  their outcomes in order, and the counter they leave.
\<close>

fun alloc_run :: "nat \<Rightarrow> 32 word \<Rightarrow> (error + 16 word) list \<times> 32 word" where
  "alloc_run 0 n = ([], n)"
| "alloc_run (Suc k) n =
     (case allocStreamID n of
        (r, n') \<Rightarrow> (case alloc_run k n' of (rs, n'') \<Rightarrow> (r # rs, n'')))"

record Stream =
  Stream_ID :: "16 word"
  CircWindow :: int
  StreamWindow :: int
  buf :: "byte list"
  closed :: bool
  eof :: bool
  circDataReceived :: int
  streamDataReceived :: int

text \<open>
  The loop of \<open>Begin\<close> that waits for RELAY_CONNECTED. It ends on every finite input:
  \<open>ReceiveRelay\<close> fails when the bytes run out. A \<open>None\<close> stands for not returning.
\<close>

partial_function (option) Begin_wait :: "Circuit \<Rightarrow> 16 word \<Rightarrow> (Circuit \<times> (error + Stream)) option" where
  "Begin_wait c sid =
     (case ReceiveRelay c of
        (c', Inl err) \<Rightarrow> Some (c', Inl err)
      | (c', Inr (hopIdx, relayCmd, respStreamID, data)) \<Rightarrow>
          if respStreamID \<noteq> sid then Begin_wait c' sid
          else if relayCmd = RelayConnected
            then Some (c', Inr \<lparr>Stream_ID = sid, CircWindow = 1000, StreamWindow = 500, buf = [],
                                closed = False, eof = False, circDataReceived = 0,
                                streamDataReceived = 0\<rparr>)
          else if relayCmd = RelayEnd
            then Some (c', Inl (ErrStreamRejected (if length data > 0 then data ! 0 else 0)))
          else Some (c', Inl (ErrUnexpectedRelayCommand relayCmd)))"

text \<open>
  \<open>Begin\<close>, given the circuit, the target \<open>host:port\<close> as bytes, the value of
  \<open>nextStreamID\<close> and the random padding of the cell it sends. It returns the counter too.
\<close>

definition Begin ::
  "Circuit \<Rightarrow> byte list \<Rightarrow> 32 word \<Rightarrow> (nat \<Rightarrow> byte) \<Rightarrow> (Circuit \<times> 32 word \<times> (error + Stream)) option" where
  "Begin circ target counter rnd =
     (case allocStreamID counter of
        (Inl err, counter') \<Rightarrow> Some (circ, counter', Inl err)
      | (Inr sid, counter') \<Rightarrow>
          let payload = copy_at (replicate (length target + 1 + 4) 0) 0 target
          in (case SendRelay circ RelayBegin sid payload rnd of
                (c1, Some err) \<Rightarrow> Some (c1, counter', Inl err)
              | (c1, None) \<Rightarrow>
                  (case Begin_wait c1 sid of
                     None \<Rightarrow> None
                   | Some (c2, r) \<Rightarrow> Some (c2, counter', r))))"

text \<open>
  The loop \<open>for len(p) > 0\<close> of \<open>Write\<close>. \<open>rnd k\<close> is the random padding of the
  \<open>k\<close>-th cell the loop sends. The result is the circuit, the stream, the count of bytes
  sent and the error, if any.
\<close>

function Write_loop ::
  "Circuit \<Rightarrow> Stream \<Rightarrow> byte list \<Rightarrow> nat \<Rightarrow> (nat \<Rightarrow> nat \<Rightarrow> byte) \<Rightarrow> Circuit \<times> Stream \<times> nat \<times> error option" where
  "Write_loop c s p sent rnd =
     (if length p > 0 then
        if CircWindow s \<le> 0 \<or> StreamWindow s \<le> 0
        then (c, s, sent, Some (ErrSendWindowExhausted (CircWindow s) (StreamWindow s)))
        else
          let chunk = (if length p > MaxRelayDataLen then take MaxRelayDataLen p else p)
          in (case SendRelay c RelayData (Stream_ID s) chunk (rnd 0) of
                (c', Some err) \<Rightarrow> (c', s, sent, Some err)
              | (c', None) \<Rightarrow>
                  Write_loop c'
                    (s\<lparr>CircWindow := CircWindow s - 1, StreamWindow := StreamWindow s - 1\<rparr>)
                    (drop (length chunk) p) (sent + length chunk) (\<lambda>k. rnd (Suc k)))
      else (c, s, sent, None))"
  by pat_completeness auto
termination
  apply (relation "measure (\<lambda>(c, s, p, sent, rnd). length p)")
   apply simp
  apply (auto simp: MaxRelayDataLen_def split: if_splits)
  done

declare Write_loop.simps [simp del]

definition Write ::
  "Circuit \<Rightarrow> Stream \<Rightarrow> byte list \<Rightarrow> (nat \<Rightarrow> nat \<Rightarrow> byte) \<Rightarrow> Circuit \<times> Stream \<times> nat \<times> error option" where
  "Write c s p rnd =
     (if closed s then (c, s, 0, Some ErrStreamClosed) else Write_loop c s p 0 rnd)"

text \<open>
  Following the claim's words, for comparison with \<open>Write\<close>: the data as consecutive
  chunks of at most 498 bytes, the number of cells the two send windows allow, and the
  sending of a list of chunks as RELAY_DATA cells by \<open>SendRelay\<close>, in order, up to the
  first send that fails. \<open>send_cells\<close> returns the circuit, the number of cells sent and
  the error of the failed send, if any.
\<close>

definition data_chunks :: "byte list \<Rightarrow> byte list list" where
  "data_chunks p =
     map (\<lambda>i. take MaxRelayDataLen (drop (MaxRelayDataLen * i) p))
         [0 ..< (length p + (MaxRelayDataLen - 1)) div MaxRelayDataLen]"

definition cells_allowed :: "Stream \<Rightarrow> nat" where
  "cells_allowed s = nat (min (CircWindow s) (StreamWindow s))"

fun send_cells ::
  "Circuit \<Rightarrow> 16 word \<Rightarrow> byte list list \<Rightarrow> (nat \<Rightarrow> nat \<Rightarrow> byte) \<Rightarrow> Circuit \<times> nat \<times> error option" where
  "send_cells c sid [] rnd = (c, 0, None)"
| "send_cells c sid (d # ds) rnd =
     (case SendRelay c RelayData sid d (rnd 0) of
        (c', Some err) \<Rightarrow> (c', 0, Some err)
      | (c', None) \<Rightarrow>
          (case send_cells c' sid ds (\<lambda>k. rnd (Suc k)) of
             (c'', k, e) \<Rightarrow> (c'', Suc k, e)))"

section \<open>External primitives\<close>

text \<open>
  The cryptographic and parsing functions of Go's libraries are parameters of the model:
  nothing is assumed of them. \<open>HKDF\<close> and \<open>SHAKE256\<close> give the byte at each position of
  their output stream, \<open>AES_CTR\<close> the keystream of a key under the zero IV, \<open>ParseIP4\<close>
  the four bytes of \<open>net.ParseIP(s).To4()\<close>, if any.
\<close>

record primitives =
  X25519 :: "byte list \<Rightarrow> byte list \<Rightarrow> byte list option"
  Basepoint :: "byte list"
  HMAC_SHA256 :: "byte list \<Rightarrow> byte list \<Rightarrow> byte list"
  HKDF_SHA256 :: "byte list \<Rightarrow> byte list \<Rightarrow> byte list \<Rightarrow> nat \<Rightarrow> byte"
  SHA1 :: "byte list \<Rightarrow> byte list"
  SHA3_256 :: "byte list \<Rightarrow> byte list"
  SHAKE256 :: "byte list \<Rightarrow> nat \<Rightarrow> byte"
  AES_CTR :: "byte list \<Rightarrow> nat \<Rightarrow> byte"
  ParseIP4 :: "string \<Rightarrow> byte list option"

definition bytes_of :: "string \<Rightarrow> byte list" where
  "bytes_of s = map (\<lambda>ch. of_nat (of_char ch)) s"

text \<open>\<open>binary.BigEndian.PutUint64(buf, uint64(n))\<close> for an \<open>int64\<close> or a length \<open>n\<close>.\<close>

definition PutUint64 :: "int \<Rightarrow> byte list" where
  "PutUint64 n = map (\<lambda>k. word_of_int (n div 2 ^ (8 * k))) [7, 6, 5, 4, 3, 2, 1, 0]"

text \<open>\<open>isZero\<close> and \<open>isAllZeros\<close>: the OR of all bytes is zero.\<close>

definition isZero :: "byte list \<Rightarrow> bool" where
  "isZero b = (fold (\<lambda>v acc. acc OR v) b 0 = 0)"

definition clear :: "byte list \<Rightarrow> byte list" where
  "clear b = replicate (length b) 0"

section \<open>ntor: the client handshake\<close>

definition protoID :: string where "protoID = ''ntor-curve25519-sha256-1''"
definition tKey :: string where "tKey = protoID @ '':key_extract''"
definition tMac :: string where "tMac = protoID @ '':mac''"
definition tVerify :: string where "tVerify = protoID @ '':verify''"
definition mExpand :: string where "mExpand = protoID @ '':key_expand''"

record KeyMaterial =
  Df :: "byte list"
  Db :: "byte list"
  Kf :: "byte list"
  Kb :: "byte list"

text \<open>The fields \<open>x\<close> and \<open>X\<close> of the Go struct are \<open>ntor_x\<close> and \<open>ntor_X\<close> here.\<close>

record HandshakeState =
  nodeID :: "byte list"
  ntorKey :: "byte list"
  ntor_x :: "byte list"
  ntor_X :: "byte list"

text \<open>\<open>NewHandshake\<close>, given the 32 bytes \<open>rand.Read\<close> delivers.\<close>

definition NewHandshake :: "primitives \<Rightarrow> byte list \<Rightarrow> byte list \<Rightarrow> byte list \<Rightarrow> error + HandshakeState" where
  "NewHandshake P nid key rnd_x =
     (case X25519 P rnd_x (Basepoint P) of
        None \<Rightarrow> Inl ErrCurve25519
      | Some pub \<Rightarrow> Inr \<lparr>nodeID = nid, ntorKey = key, ntor_x = rnd_x,
                           ntor_X = copy_at (replicate 32 0) 0 pub\<rparr>)"

definition Close :: "HandshakeState \<Rightarrow> HandshakeState" where
  "Close hs = hs\<lparr>ntor_x := clear (ntor_x hs)\<rparr>"

definition ClientData :: "HandshakeState \<Rightarrow> byte list" where
  "ClientData hs = nodeID hs @ ntorKey hs @ ntor_X hs"

definition ntorHMAC :: "primitives \<Rightarrow> byte list \<Rightarrow> string \<Rightarrow> byte list" where
  "ntorHMAC P msg key = HMAC_SHA256 P (bytes_of key) msg"

text \<open>
  \<open>Complete\<close> returns the handshake state as it leaves it and the key material or the
  error. Reading 92 bytes of HKDF output cannot fail (the limit is 255 blocks).
\<close>

definition Complete :: "primitives \<Rightarrow> HandshakeState \<Rightarrow> byte list \<Rightarrow> HandshakeState \<times> (error + KeyMaterial)" where
  "Complete P hs serverData =
     (let Y = take 32 serverData; authReceived = take 32 (drop 32 serverData)
      in case X25519 P (ntor_x hs) Y of
           None \<Rightarrow> (hs, Inl ErrCurve25519)
         | Some exp1 \<Rightarrow>
             if isZero exp1 then (hs, Inl ErrZeroPoint)
             else
               (case X25519 P (ntor_x hs) (ntorKey hs) of
                  None \<Rightarrow> (hs, Inl ErrCurve25519)
                | Some exp2 \<Rightarrow>
                    if isZero exp2 then (hs, Inl ErrZeroPoint)
                    else
                      let secretInput = exp1 @ exp2 @ nodeID hs @ ntorKey hs @ ntor_X hs @ Y @ bytes_of protoID;
                          verify = ntorHMAC P secretInput tVerify;
                          authInput = verify @ nodeID hs @ ntorKey hs @ Y @ ntor_X hs @ bytes_of protoID
                                      @ bytes_of ''Server'';
                          expectedAuth = ntorHMAC P authInput tMac
                      in if expectedAuth \<noteq> authReceived then (hs, Inl ErrAuthFailed)
                         else
                           let keys = map (HKDF_SHA256 P secretInput (bytes_of tKey) (bytes_of mExpand))
                                          [0 ..< 92];
                               km = \<lparr>Df = take 20 keys, Db = take 20 (drop 20 keys),
                                     Kf = take 16 (drop 40 keys), Kb = take 16 (drop 56 keys)\<rparr>
                           in (hs\<lparr>ntor_x := clear (ntor_x hs)\<rparr>, Inr km)))"

text \<open>
  Following the spec's words (section 4.3), for comparison with \<open>Complete\<close>:
  \<open>secret_input = x.Y || x.B || ID || B || X || Y || PROTOID\<close> and
  \<open>auth_input = verify || ID || B || Y || X || PROTOID || "Server"\<close> with
  \<open>verify = HMAC-SHA256(t_verify, secret_input)\<close>.
\<close>

definition spec_secret_input :: "HandshakeState \<Rightarrow> byte list \<Rightarrow> byte list \<Rightarrow> byte list \<Rightarrow> byte list" where
  "spec_secret_input hs xY xB Y =
     xY @ xB @ nodeID hs @ ntorKey hs @ ntor_X hs @ Y @ bytes_of ''ntor-curve25519-sha256-1''"

definition spec_auth_input :: "primitives \<Rightarrow> HandshakeState \<Rightarrow> byte list \<Rightarrow> byte list \<Rightarrow> byte list \<Rightarrow> byte list" where
  "spec_auth_input P hs xY xB Y =
     HMAC_SHA256 P (bytes_of ''ntor-curve25519-sha256-1:verify'') (spec_secret_input hs xY xB Y)
     @ nodeID hs @ ntorKey hs @ Y @ ntor_X hs @ bytes_of ''ntor-curve25519-sha256-1''
     @ bytes_of ''Server''"

section \<open>onion: the hs-ntor client handshake\<close>

definition hsNtorProtoid :: string where "hsNtorProtoid = ''tor-hs-ntor-curve25519-sha3-256-1''"
definition tHsenc :: "byte list" where "tHsenc = bytes_of (hsNtorProtoid @ '':hs_key_extract'')"
definition tHsverify :: "byte list" where "tHsverify = bytes_of (hsNtorProtoid @ '':hs_verify'')"
definition tHsmac :: "byte list" where "tHsmac = bytes_of (hsNtorProtoid @ '':hs_mac'')"
definition mHsexpand :: "byte list" where "mHsexpand = bytes_of (hsNtorProtoid @ '':hs_key_expand'')"

text \<open>The fields \<open>X\<close>, \<open>x\<close> and \<open>B\<close> of the Go struct are \<open>hs_X\<close>, \<open>hs_x\<close> and \<open>hs_B\<close> here.\<close>

record HsNtorClientState =
  hs_X :: "byte list"
  hs_x :: "byte list"
  hs_B :: "byte list"
  AuthKey :: "byte list"
  Subcred :: "byte list"

definition hsMAC :: "primitives \<Rightarrow> byte list \<Rightarrow> byte list \<Rightarrow> byte list" where
  "hsMAC P key message = SHA3_256 P (PutUint64 (int (length key)) @ key @ message)"

definition buildRendSecretInput ::
  "byte list \<Rightarrow> byte list \<Rightarrow> byte list \<Rightarrow> byte list \<Rightarrow> byte list \<Rightarrow> byte list \<Rightarrow> byte list" where
  "buildRendSecretInput expYx expBx authKey B Xb Y =
     expYx @ expBx @ authKey @ B @ Xb @ Y @ bytes_of hsNtorProtoid"

definition HsNtorClientCompleteHandshake ::
  "primitives \<Rightarrow> HsNtorClientState \<Rightarrow> byte list \<Rightarrow> byte list \<Rightarrow> HsNtorClientState \<times> (error + byte list)" where
  "HsNtorClientCompleteHandshake P state serverPK auth =
     (case X25519 P (hs_x state) serverPK of
        None \<Rightarrow> (state, Inl ErrCurve25519)
      | Some expYx \<Rightarrow>
          if isZero expYx then (state, Inl ErrZeroPoint)
          else
            (case X25519 P (hs_x state) (hs_B state) of
               None \<Rightarrow> (state, Inl ErrCurve25519)
             | Some expBx \<Rightarrow>
                 if isZero expBx then (state, Inl ErrZeroPoint)
                 else
                   let rendSecret = buildRendSecretInput expYx expBx (AuthKey state) (hs_B state)
                                      (hs_X state) serverPK;
                       ntorKeySeed = hsMAC P rendSecret tHsenc;
                       verify = hsMAC P rendSecret tHsverify;
                       authInput = verify @ AuthKey state @ hs_B state @ serverPK @ hs_X state
                                   @ bytes_of hsNtorProtoid @ bytes_of ''Server'';
                       expectedAuth = hsMAC P authInput tHsmac
                   in if expectedAuth \<noteq> auth then (state, Inl ErrAuthFailed)
                      else (state\<lparr>hs_x := clear (hs_x state)\<rparr>, Inr ntorKeySeed)))"

section \<open>circuit: Extend\<close>

record RelayInfo =
  NodeID :: "byte list"
  NtorOnionKey :: "byte list"
  Address :: string
  ORPort :: "16 word"
  Fingerprint :: string

definition LinkSpecIPv4 :: byte where "LinkSpecIPv4 = 0"
definition LinkSpecRSAID :: byte where "LinkSpecRSAID = 2"

definition buildExtend2Payload :: "primitives \<Rightarrow> RelayInfo \<Rightarrow> byte list \<Rightarrow> byte list" where
  "buildExtend2Payload P relayInfo clientData =
     (let specs0 = (case ParseIP4 P (Address relayInfo) of
                      None \<Rightarrow> []
                    | Some ip4 \<Rightarrow>
                        [copy_at (copy_at [LinkSpecIPv4, 6, 0, 0, 0, 0, 0, 0] 2 (take 4 ip4)) 6
                           (PutUint16 (unat (ORPort relayInfo)))]);
          rsaSpec = copy_at ([LinkSpecRSAID, 20] @ replicate 20 0) 2 (NodeID relayInfo);
          specs = specs0 @ [rsaSpec]
      in [of_nat (length specs)] @ concat specs @ PutUint16 2 @ PutUint16 84 @ clientData)"

text \<open>\<open>initHop\<close>: the keys are 16 bytes, so \<open>aes.NewCipher\<close> does not fail.\<close>

definition initHop :: "primitives \<Rightarrow> KeyMaterial \<Rightarrow> Hop" where
  "initHop P km =
     \<lparr>kf = \<lparr>keystream = AES_CTR P (Kf km), used = 0\<rparr>,
      kb = \<lparr>keystream = AES_CTR P (Kb km), used = 0\<rparr>,
      df = \<lparr>alg = SHA1 P, absorbed = Df km, marshal_ok = True, unmarshal_ok = True\<rparr>,
      db = \<lparr>alg = SHA1 P, absorbed = Db km, marshal_ok = True, unmarshal_ok = True\<rparr>\<rparr>"

text \<open>
  The section of \<open>Extend\<close> that holds the write lock: encrypt the EXTEND2 payload,
  check the RELAY_EARLY budget, count the cell and write it as a RELAY_EARLY cell.
\<close>

definition Extend_send :: "Circuit \<Rightarrow> byte list \<Rightarrow> (nat \<Rightarrow> byte) \<Rightarrow> Circuit \<times> error option" where
  "Extend_send c extend2Payload rnd =
     (case encryptRelayLocked c RelayExtend2 0 extend2Payload rnd of
        (c1, Inl err) \<Rightarrow> (c1, Some err)
      | (c1, Inr relayCell) \<Rightarrow>
          if RelayEarlySent c1 \<ge> MaxRelayEarly
          then (c1, Some (ErrRelayEarlyExhausted (RelayEarlySent c1)))
          else
            let c2 = c1\<lparr>RelayEarlySent := RelayEarlySent c1 + 1\<rparr>;
                earlyCell = copy_at (NewFixedCell (ID c2) CmdRelayEarly) 5 (Payload relayCell)
            in circuit_write c2 earlyCell)"

text \<open>The rest of \<open>Extend\<close>: wait for EXTENDED2, complete the handshake, append the hop.\<close>

definition Extend_receive :: "primitives \<Rightarrow> Circuit \<Rightarrow> HandshakeState \<Rightarrow> Circuit \<times> error option" where
  "Extend_receive P c hs =
     (case ReceiveRelay c of
        (c1, Inl err) \<Rightarrow> (c1, Some err)
      | (c1, Inr (hopIdx, relayCmd, streamID, data)) \<Rightarrow>
          if relayCmd \<noteq> RelayExtended2 then (c1, Some (ErrExpectedExtended2 relayCmd))
          else if length data < 2 then (c1, Some (ErrExtended2Short (length data)))
          else
            let hlen = Uint16 (data ! 0) (data ! 1)
            in if hlen \<noteq> 64 then (c1, Some (ErrExtended2HLEN hlen))
               else if length data < 2 + hlen then (c1, Some (ErrExtended2Truncated (length data)))
               else
                 (case Complete P hs (take 64 (drop 2 data)) of
                    (hs', Inl err) \<Rightarrow> (c1, Some err)
                  | (hs', Inr km) \<Rightarrow> (c1\<lparr>Hops := Hops c1 @ [initHop P km]\<rparr>, None)))"

text \<open>
  \<open>Extend\<close>, given the 32 random bytes of the new handshake and the random padding of
  the cell. The handshake state is local to the call and zeroed by the deferred \<open>Close\<close>.
\<close>

definition Extend ::
  "primitives \<Rightarrow> Circuit \<Rightarrow> RelayInfo \<Rightarrow> byte list \<Rightarrow> (nat \<Rightarrow> byte) \<Rightarrow> Circuit \<times> error option" where
  "Extend P c relayInfo rnd_x rnd =
     (case ParseIP4 P (Address relayInfo) of
        None \<Rightarrow> (c, Some ErrInvalidIPv4)
      | Some ip4 \<Rightarrow>
          (case NewHandshake P (NodeID relayInfo) (NtorOnionKey relayInfo) rnd_x of
             Inl err \<Rightarrow> (c, Some err)
           | Inr hs \<Rightarrow>
               let clientData = ClientData hs;
                   extend2Payload = buildExtend2Payload P relayInfo clientData
               in (case Extend_send c extend2Payload rnd of
                     (c1, Some err) \<Rightarrow> (c1, Some err)
                   | (c1, None) \<Rightarrow> Extend_receive P c1 hs)))"

section \<open>onion: shared random value and HSDir selection\<close>

record RelayFlags =
  Authority :: bool
  BadExit :: bool
  Exit :: bool
  Fast :: bool
  Guard :: bool
  HSDir :: bool
  Running :: bool
  Stable :: bool
  Valid :: bool

record Relay =
  Nickname :: string
  Identity :: "byte list"
  Relay_Address :: string
  Relay_ORPort :: "16 word"
  DirPort :: "16 word"
  Flags :: RelayFlags
  Bandwidth :: int
  MicrodescDigest :: string
  Relay_NtorOnionKey :: "byte list"
  Ed25519ID :: "byte list"
  HasNtorKey :: bool
  HasEd25519 :: bool

text \<open>
  A \<open>time.Time\<close> is its count of seconds since the epoch; the consensus parser builds
  these times in UTC, where \<open>Hour()\<close> is the hour of that day.
\<close>

definition Hour :: "int \<Rightarrow> int" where
  "Hour t = (t mod 86400) div 3600"

record Consensus =
  ValidAfter :: int
  FreshUntil :: int
  ValidUntil :: int
  SharedRandCurrentValue :: "byte list"
  SharedRandPreviousValue :: "byte list"
  Relays :: "Relay list"
  BandwidthWeights :: "string \<rightharpoonup> int"

definition GetSRVForClient :: "Consensus \<Rightarrow> error + byte list" where
  "GetSRVForClient consensus =
     (let hour = Hour (ValidAfter consensus)
      in if hour \<ge> 12 then
           if length (SharedRandCurrentValue consensus) > 0
           then Inr (SharedRandCurrentValue consensus)
           else Inl ErrNoCurrentSRV
         else if length (SharedRandPreviousValue consensus) > 0
           then Inr (SharedRandPreviousValue consensus)
         else if length (SharedRandCurrentValue consensus) > 0
           then Inr (SharedRandCurrentValue consensus)
         else Inl ErrNoSRVAvailable)"

definition hsdirNReplicas :: int where "hsdirNReplicas = 2"
definition hsdirSpreadFetch :: int where "hsdirSpreadFetch = 3"

text \<open>
  A ring entry. The Go entry holds the pointer \<open>&consensus.Relays[i]\<close>; the model holds
  the position \<open>i\<close>, so that two entries are the same relay exactly when the pointers are.
\<close>

record hsdirEntry =
  Relay_at :: nat
  Index :: "byte list"

definition serviceIndex :: "primitives \<Rightarrow> byte list \<Rightarrow> int \<Rightarrow> int \<Rightarrow> int \<Rightarrow> byte list" where
  "serviceIndex P blindedKey replicanum periodLength periodNum =
     copy_at (replicate 32 0) 0
       (SHA3_256 P (bytes_of ''store-at-idx'' @ blindedKey @ PutUint64 replicanum
                    @ PutUint64 periodLength @ PutUint64 periodNum))"

definition relayIndex :: "primitives \<Rightarrow> byte list \<Rightarrow> byte list \<Rightarrow> int \<Rightarrow> int \<Rightarrow> byte list" where
  "relayIndex P nodeIdentity srv periodNum periodLength =
     copy_at (replicate 32 0) 0
       (SHA3_256 P (bytes_of ''node-idx'' @ nodeIdentity @ srv @ PutUint64 periodNum
                    @ PutUint64 periodLength))"

text \<open>\<open>bytes.Compare\<close>: -1, 0 or 1, bytes compared as unsigned.\<close>

fun Compare :: "byte list \<Rightarrow> byte list \<Rightarrow> int" where
  "Compare [] [] = 0"
| "Compare [] (b # bs) = -1"
| "Compare (a # as) [] = 1"
| "Compare (a # as) (b # bs) = (if a < b then -1 else if b < a then 1 else Compare as bs)"

text \<open>
  \<open>sort.Slice\<close> by increasing index. Go leaves the order of entries with equal indices
  open; the model keeps them in the order of the consensus.
\<close>

fun insert_entry :: "hsdirEntry \<Rightarrow> hsdirEntry list \<Rightarrow> hsdirEntry list" where
  "insert_entry e [] = [e]"
| "insert_entry e (y # ys) =
     (if Compare (Index y) (Index e) < 0 then y # insert_entry e ys else e # y # ys)"

definition sort_ring :: "hsdirEntry list \<Rightarrow> hsdirEntry list" where
  "sort_ring ring = foldr insert_entry ring []"

text \<open>\<open>sort.Search(n, f)\<close>: the least \<open>i < n\<close> with \<open>f i\<close>, for monotone \<open>f\<close>; \<open>n\<close> if none.\<close>

definition Search :: "nat \<Rightarrow> (nat \<Rightarrow> bool) \<Rightarrow> nat" where
  "Search n f = length (takeWhile (\<lambda>i. \<not> f i) [0 ..< n])"

text \<open>
  The loop that builds the ring skips a relay unless it has the HSDir, Running and Valid
  flags and an Ed25519 identity.
\<close>

definition build_ring :: "primitives \<Rightarrow> Consensus \<Rightarrow> byte list \<Rightarrow> int \<Rightarrow> int \<Rightarrow> hsdirEntry list" where
  "build_ring P consensus srv periodNum periodLength =
     map (\<lambda>i. \<lparr>Relay_at = i,
               Index = relayIndex P (Ed25519ID (Relays consensus ! i)) srv periodNum periodLength\<rparr>)
       (filter (\<lambda>i. let r = Relays consensus ! i
                    in HSDir (Flags r) \<and> Running (Flags r) \<and> Valid (Flags r) \<and> HasEd25519 r)
          [0 ..< length (Relays consensus)])"

text \<open>Go's \<open>int\<close> is 64 bits wide and wraps; \<open>%\<close> truncates towards zero.\<close>

definition int64 :: "int \<Rightarrow> int" where
  "int64 n = signed_take_bit 63 n"

definition go_rem :: "int \<Rightarrow> int \<Rightarrow> int" where
  "go_rem a b = sgn a * (\<bar>a\<bar> mod \<bar>b\<bar>)"

text \<open>
  The loop \<open>for count < hsdirSpreadFetch\<close> of one replica. \<open>selected\<close> is the key set of
  the Go map, \<open>result\<close> the list built so far. \<open>None\<close> stands for a loop that never ends.
\<close>

partial_function (option) spread_loop ::
  "hsdirEntry list \<Rightarrow> int \<Rightarrow> int \<Rightarrow> int \<Rightarrow> nat list \<Rightarrow> nat list \<Rightarrow> (error + nat list \<times> nat list) option" where
  "spread_loop ring start count offset selected result =
     (if count < hsdirSpreadFetch then
        let pos = go_rem (int64 (start + offset)) (int (length ring));
            offset' = int64 (offset + 1)
        in if pos < 0 then Some (Inl Panic)
           else
             let r = Relay_at (ring ! nat pos)
             in if r \<in> set selected then spread_loop ring start count offset' selected result
                else
                  let selected' = selected @ [r];
                      result' = result @ [r];
                      count' = count + 1
                  in if length selected' \<ge> length ring then Some (Inr (selected', result'))
                     else spread_loop ring start count' offset' selected' result'
      else Some (Inr (selected, result)))"

text \<open>The loop \<open>for replica := 1; replica <= hsdirNReplicas; replica++\<close>, over its values.\<close>

fun replica_loop ::
  "primitives \<Rightarrow> hsdirEntry list \<Rightarrow> byte list \<Rightarrow> int \<Rightarrow> int \<Rightarrow> int list \<Rightarrow> nat list \<Rightarrow> nat list
     \<Rightarrow> (error + nat list \<times> nat list) option" where
  "replica_loop P ring blindedKey periodNum periodLength [] selected result =
     Some (Inr (selected, result))"
| "replica_loop P ring blindedKey periodNum periodLength (replica # rest) selected result =
     (let svcIdx = serviceIndex P blindedKey replica periodLength periodNum;
          start = Search (length ring) (\<lambda>i. Compare (Index (ring ! i)) svcIdx \<ge> 0)
      in case spread_loop ring (int start) 0 0 selected result of
           None \<Rightarrow> None
         | Some (Inl err) \<Rightarrow> Some (Inl err)
         | Some (Inr (selected', result')) \<Rightarrow>
             replica_loop P ring blindedKey periodNum periodLength rest selected' result')"

text \<open>\<open>SelectHSDirs\<close> returns the selected relays as positions in \<open>consensus.Relays\<close>.\<close>

definition SelectHSDirs ::
  "primitives \<Rightarrow> Consensus \<Rightarrow> byte list \<Rightarrow> int \<Rightarrow> int \<Rightarrow> byte list \<Rightarrow> (error + nat list) option" where
  "SelectHSDirs P consensus blindedKey periodNum periodLength srv =
     (if length srv = 0 then Some (Inl ErrNoSharedRandom)
      else
        let ring0 = build_ring P consensus srv periodNum periodLength
        in if length ring0 = 0 then Some (Inl ErrNoHSDirRelays)
           else
             let ring = sort_ring ring0
             in (case replica_loop P ring blindedKey periodNum periodLength
                        (map int [1 ..< nat hsdirNReplicas + 1]) [] [] of
                   None \<Rightarrow> None
                 | Some (Inl err) \<Rightarrow> Some (Inl err)
                 | Some (Inr (selected, result)) \<Rightarrow>
                     if length result = 0 then Some (Inl ErrNoHSDirsSelected)
                     else Some (Inr result)))"

section \<open>Example states\<close>

text \<open>
  Concrete states at which the theorems below are evaluated: a one-hop circuit whose
  ciphers have the zero keystream and whose digests hash everything to twenty zero bytes,
  on a link that has written nothing and never fails; an open stream with given send
  windows; primitives that return constants (the HKDF stream counts its bytes); a relay to
  extend to; the client states of an ntor and of an hs-ntor handshake; a link that fails
  after one cell; circuits of two hops and a relay cell for them.
\<close>

definition example_hop :: Hop where
  "example_hop =
     \<lparr>kf = \<lparr>keystream = (\<lambda>i. 0), used = 0\<rparr>,
      kb = \<lparr>keystream = (\<lambda>i. 0), used = 0\<rparr>,
      df = \<lparr>alg = (\<lambda>m. replicate 20 0), absorbed = [], marshal_ok = True, unmarshal_ok = True\<rparr>,
      db = \<lparr>alg = (\<lambda>m. replicate 20 0), absorbed = [], marshal_ok = True, unmarshal_ok = True\<rparr>\<rparr>"

definition example_circuit :: "int \<Rightarrow> Circuit" where
  "example_circuit early =
     \<lparr>ID = 0x80000001, Link = \<lparr>Reader = [], Written = [], WriteFails = (\<lambda>n. False)\<rparr>,
      Hops = [example_hop], RelayEarlySent = early\<rparr>"

definition example_stream :: "int \<Rightarrow> int \<Rightarrow> Stream" where
  "example_stream cw sw =
     \<lparr>Stream_ID = 1, CircWindow = cw, StreamWindow = sw, buf = [], closed = False, eof = False,
      circDataReceived = 0, streamDataReceived = 0\<rparr>"

definition example_primitives :: primitives where
  "example_primitives =
     \<lparr>X25519 = (\<lambda>s p. Some (replicate 32 1)), Basepoint = 9 # replicate 31 0,
      HMAC_SHA256 = (\<lambda>k m. replicate 32 0), HKDF_SHA256 = (\<lambda>s salt info i. of_nat i),
      SHA1 = (\<lambda>m. replicate 20 0), SHA3_256 = (\<lambda>m. replicate 32 0), SHAKE256 = (\<lambda>m i. 0),
      AES_CTR = (\<lambda>k i. 0), ParseIP4 = (\<lambda>s. Some [10, 0, 0, 1])\<rparr>"

definition example_relay :: RelayInfo where
  "example_relay = \<lparr>NodeID = replicate 20 2, NtorOnionKey = replicate 32 3,
      Address = ''10.0.0.1'', ORPort = 9001, Fingerprint = []\<rparr>"

text \<open>A ninth RELAY_EARLY attempt: \<open>Extend\<close> on a circuit that has sent eight.\<close>

definition example_extend :: "Circuit \<times> error option" where
  "example_extend =
     Extend example_primitives (example_circuit 8) example_relay (replicate 32 1) (\<lambda>i. 0)"

definition example_handshake :: HandshakeState where
  "example_handshake =
     \<lparr>nodeID = replicate 20 2, ntorKey = replicate 32 3, ntor_x = replicate 32 7,
      ntor_X = replicate 32 1\<rparr>"

definition example_hs_state :: HsNtorClientState where
  "example_hs_state =
     \<lparr>hs_X = replicate 32 1, hs_x = replicate 32 7, hs_B = replicate 32 3,
      AuthKey = replicate 32 4, Subcred = replicate 32 5\<rparr>"

text \<open>A consensus with a single relay, which has the four properties of an HSDir.\<close>

definition example_consensus :: Consensus where
  "example_consensus =
     \<lparr>ValidAfter = 14 * 3600, FreshUntil = 15 * 3600, ValidUntil = 17 * 3600,
      SharedRandCurrentValue = replicate 32 0xAA, SharedRandPreviousValue = replicate 32 0xBB,
      Relays = [\<lparr>Nickname = ''relay0'', Identity = replicate 20 1, Relay_Address = ''10.0.0.1'',
                 Relay_ORPort = 9001, DirPort = 0,
                 Flags = \<lparr>Authority = False, BadExit = False, Exit = False, Fast = True,
                           Guard = False, HSDir = True, Running = True, Stable = True,
                           Valid = True\<rparr>,
                 Bandwidth = 1000, MicrodescDigest = [], Relay_NtorOnionKey = replicate 32 3,
                 Ed25519ID = replicate 32 4, HasNtorKey = True, HasEd25519 = True\<rparr>],
      BandwidthWeights = Map.empty\<rparr>"

text \<open>The example circuit on a link that accepts one cell and fails from then on.\<close>

definition example_circuit_link_fails :: Circuit where
  "example_circuit_link_fails =
     (example_circuit 0)\<lparr>Link := \<lparr>Reader = [], Written = [], WriteFails = (\<lambda>n. 1 \<le> n)\<rparr>\<rparr>"

text \<open>
  Two-hop circuits: the first hop is the example hop, the second is given. In
  \<open>example_hop_keyed\<close> the backward keystream is \<open>01\<close> at position 5 and zero elsewhere.
\<close>

definition example_hop_keyed :: Hop where
  "example_hop_keyed = example_hop\<lparr>kb := \<lparr>keystream = (\<lambda>i. if i = 5 then 1 else 0), used = 0\<rparr>\<rparr>"

definition example_circuit_two :: "Hop \<Rightarrow> Circuit" where
  "example_circuit_two h = (example_circuit 0)\<lparr>Hops := [example_hop, h]\<rparr>"

text \<open>
  A relay payload (RELAY_DATA, stream 7, no data) whose recognized field is zero and whose
  digest field is \<open>01 00 00 00\<close>, the same payload with the digest field zero, and the
  RELAY cell that carries the first.
\<close>

definition example_payload :: "byte list" where
  "example_payload = [2, 0, 0, 0, 7, 1, 0, 0, 0] @ replicate 500 0"

definition example_payload_zeroed :: "byte list" where
  "example_payload_zeroed = [2, 0, 0, 0, 7, 0, 0, 0, 0] @ replicate 500 0"

definition example_cell_false_zero :: "byte list" where
  "example_cell_false_zero = [0x80, 0, 0, 1, 3] @ example_payload"

section \<open>Properties of the cell reader\<close>

lemma ReadCell_oversized:
  "length inp \<ge> 7 \<Longrightarrow> IsVariableLength (inp ! 4) \<Longrightarrow>
   Uint16 (inp ! 5) (inp ! 6) > 10000 \<Longrightarrow>
   fst (ReadCell inp) = Inl (ErrVarPayloadTooLarge (Uint16 (inp ! 5) (inp ! 6)))"
  by (simp add: ReadCell_def ReadFull_def MaxVarPayloadLen_def Let_def)

text \<open>
  C5. A variable-length cell whose declared payload length exceeds 10 000 must be refused.
  \<open>ReadCell\<close> refuses it, but \<open>ReadVersionsCell\<close> has no such check: the VERSIONS cell
  \<open>00 00 07 27 11\<close> (declared length 10 001) followed by 10 001 payload bytes is returned
  as a cell of 10 006 bytes.
\<close>

theorem ReadVersionsCell_oversized_accepted:
  "ReadVersionsCell ([0, 0, 7, 0x27, 0x11] @ replicate 10001 0)
     = (Inr ([0, 0, 7, 0x27, 0x11] @ replicate 10001 0), [])
   \<and> Uint16 0x27 0x11 = 10001"
  by (simp add: ReadVersionsCell_def ReadFull_def CmdVersions_def Uint16_def Let_def)

section \<open>Properties of the shared random value selection\<close>

text \<open>
  C6, as the claim states it, fails: a consensus valid after 13:00 UTC that carries a
  previous shared random value but no current one is refused, although one of the two
  values is available.
\<close>

theorem GetSRVForClient_fails_with_previous_available:
  "GetSRVForClient \<lparr>ValidAfter = 13 * 3600, FreshUntil = 14 * 3600, ValidUntil = 16 * 3600,
       SharedRandCurrentValue = [], SharedRandPreviousValue = [0xBB], Relays = [],
       BandwidthWeights = Map.empty\<rparr> = Inl ErrNoCurrentSRV"
  by (simp add: GetSRVForClient_def Hour_def)

text \<open>
  C6, amended. From hour 12 on the current value is returned when it is present, and the
  selection fails when it is absent (the previous value is not consulted). Before hour 12
  the previous value is returned when present, otherwise the current value when present,
  and the selection fails when both are absent.
\<close>

theorem GetSRVForClient_selection:
  "(12 \<le> Hour (ValidAfter c) \<and> SharedRandCurrentValue c \<noteq> []
      \<longrightarrow> GetSRVForClient c = Inr (SharedRandCurrentValue c))
   \<and> (12 \<le> Hour (ValidAfter c) \<and> SharedRandCurrentValue c = []
      \<longrightarrow> GetSRVForClient c = Inl ErrNoCurrentSRV)
   \<and> (Hour (ValidAfter c) < 12 \<and> SharedRandPreviousValue c \<noteq> []
      \<longrightarrow> GetSRVForClient c = Inr (SharedRandPreviousValue c))
   \<and> (Hour (ValidAfter c) < 12 \<and> SharedRandPreviousValue c = [] \<and> SharedRandCurrentValue c \<noteq> []
      \<longrightarrow> GetSRVForClient c = Inr (SharedRandCurrentValue c))
   \<and> (Hour (ValidAfter c) < 12 \<and> SharedRandPreviousValue c = [] \<and> SharedRandCurrentValue c = []
      \<longrightarrow> GetSRVForClient c = Inl ErrNoSRVAvailable)"
  by (simp add: GetSRVForClient_def Let_def)

theorem GetSRVForClient_selection_witness:
  "GetSRVForClient \<lparr>ValidAfter = 14 * 3600, FreshUntil = 15 * 3600, ValidUntil = 17 * 3600,
       SharedRandCurrentValue = [0xAA], SharedRandPreviousValue = [0xBB], Relays = [],
       BandwidthWeights = Map.empty\<rparr> = Inr [0xAA]
   \<and> GetSRVForClient \<lparr>ValidAfter = 14 * 3600, FreshUntil = 15 * 3600, ValidUntil = 17 * 3600,
       SharedRandCurrentValue = [], SharedRandPreviousValue = [0xBB], Relays = [],
       BandwidthWeights = Map.empty\<rparr> = Inl ErrNoCurrentSRV
   \<and> GetSRVForClient \<lparr>ValidAfter = 6 * 3600, FreshUntil = 7 * 3600, ValidUntil = 9 * 3600,
       SharedRandCurrentValue = [0xAA], SharedRandPreviousValue = [0xBB], Relays = [],
       BandwidthWeights = Map.empty\<rparr> = Inr [0xBB]
   \<and> GetSRVForClient \<lparr>ValidAfter = 6 * 3600, FreshUntil = 7 * 3600, ValidUntil = 9 * 3600,
       SharedRandCurrentValue = [0xAA], SharedRandPreviousValue = [], Relays = [],
       BandwidthWeights = Map.empty\<rparr> = Inr [0xAA]
   \<and> GetSRVForClient \<lparr>ValidAfter = 6 * 3600, FreshUntil = 7 * 3600, ValidUntil = 9 * 3600,
       SharedRandCurrentValue = [], SharedRandPreviousValue = [], Relays = [],
       BandwidthWeights = Map.empty\<rparr> = Inl ErrNoSRVAvailable"
  using
    GetSRVForClient_selection [of "\<lparr>ValidAfter = 14 * 3600, FreshUntil = 15 * 3600,
       ValidUntil = 17 * 3600, SharedRandCurrentValue = [0xAA], SharedRandPreviousValue = [0xBB],
       Relays = [], BandwidthWeights = Map.empty\<rparr>"]
    GetSRVForClient_selection [of "\<lparr>ValidAfter = 14 * 3600, FreshUntil = 15 * 3600,
       ValidUntil = 17 * 3600, SharedRandCurrentValue = [], SharedRandPreviousValue = [0xBB],
       Relays = [], BandwidthWeights = Map.empty\<rparr>"]
    GetSRVForClient_selection [of "\<lparr>ValidAfter = 6 * 3600, FreshUntil = 7 * 3600,
       ValidUntil = 9 * 3600, SharedRandCurrentValue = [0xAA], SharedRandPreviousValue = [0xBB],
       Relays = [], BandwidthWeights = Map.empty\<rparr>"]
    GetSRVForClient_selection [of "\<lparr>ValidAfter = 6 * 3600, FreshUntil = 7 * 3600,
       ValidUntil = 9 * 3600, SharedRandCurrentValue = [0xAA], SharedRandPreviousValue = [],
       Relays = [], BandwidthWeights = Map.empty\<rparr>"]
    GetSRVForClient_selection [of "\<lparr>ValidAfter = 6 * 3600, FreshUntil = 7 * 3600,
       ValidUntil = 9 * 3600, SharedRandCurrentValue = [], SharedRandPreviousValue = [],
       Relays = [], BandwidthWeights = Map.empty\<rparr>"]
  by (simp add: Hour_def)

section \<open>Properties of sending on a circuit\<close>

lemma encryptRelayLocked_Link:
  "encryptRelayLocked c cmd sid data rnd = (c', r) \<Longrightarrow> Link c' = Link c"
  by (auto simp: encryptRelayLocked_def Let_def split: if_splits prod.splits)

lemma encryptRelayLocked_RelayEarlySent:
  "encryptRelayLocked c cmd sid data rnd = (c', r) \<Longrightarrow> RelayEarlySent c' = RelayEarlySent c"
  by (auto simp: encryptRelayLocked_def Let_def split: if_splits prod.splits)

lemma SendRelay_ok_Written:
  "SendRelay c cmd sid data rnd = (c', None) \<Longrightarrow>
   length (Written (Link c')) = length (Written (Link c)) + 1"
  by (auto simp: SendRelay_def circuit_write_def WriteCell_def
           dest!: encryptRelayLocked_Link split: prod.splits sum.splits if_splits)

lemma SendRelay_err_Written:
  "SendRelay c cmd sid data rnd = (c', Some e) \<Longrightarrow> Written (Link c') = Written (Link c)"
  by (auto simp: SendRelay_def circuit_write_def WriteCell_def
           dest!: encryptRelayLocked_Link split: prod.splits sum.splits if_splits)

lemma length_copy_at [simp]: "length (copy_at dst off src) = length dst"
  by (simp add: copy_at_def)

lemma length_relay_plaintext [simp]: "length (relay_plaintext cmd sid data rnd) = 509"
  by (simp add: relay_plaintext_def Let_def RelayPayloadLen_def)

lemma XORKeyStream_length [simp]: "length (fst (XORKeyStream s src)) = length src"
  by (simp add: XORKeyStream_def)

lemma XORKeyStream_used [simp]: "used (snd (XORKeyStream s src)) = used s + length src"
  by (simp add: XORKeyStream_def)

lemma XORKeyStream_keystream [simp]: "keystream (snd (XORKeyStream s src)) = keystream s"
  by (simp add: XORKeyStream_def)

lemma encrypt_layers_props:
  "encrypt_layers hs p = (hs', p') \<Longrightarrow>
     length p' = length p \<and> length hs' = length hs
     \<and> map (\<lambda>h. used (kf h)) hs' = map (\<lambda>h. used (kf h) + length p) hs
     \<and> map df hs' = map df hs \<and> map db hs' = map db hs \<and> map kb hs' = map kb hs"
proof (induction hs arbitrary: hs' p')
  case Nil
  then show ?case by simp
next
  case (Cons h hs)
  obtain hs1 p1 where r: "encrypt_layers hs p = (hs1, p1)" by (cases "encrypt_layers hs p")
  obtain p2 k2 where x: "XORKeyStream (kf h) p1 = (p2, k2)" by (cases "XORKeyStream (kf h) p1")
  from Cons.IH [OF r] have ih: "length p1 = length p" "length hs1 = length hs"
     "map (\<lambda>h. used (kf h)) hs1 = map (\<lambda>h. used (kf h) + length p) hs"
     "map df hs1 = map df hs" "map db hs1 = map db hs" "map kb hs1 = map kb hs" by simp_all
  from x have "length p2 = length p1" "used k2 = used (kf h) + length p1"
    using XORKeyStream_length [of "kf h" p1] XORKeyStream_used [of "kf h" p1] by simp_all
  with Cons.prems r x ih show ?case by auto
qed

lemma encryptRelayLocked_error_unchanged:
  "encryptRelayLocked c cmd sid data rnd = (c', Inl e) \<Longrightarrow> c' = c"
  by (auto simp: encryptRelayLocked_def Let_def split: if_splits prod.splits)

lemma encryptRelayLocked_error_iff:
  "(\<exists>e. snd (encryptRelayLocked c cmd sid data rnd) = Inl e)
     \<longleftrightarrow> (Hops c = [] \<or> length data > MaxRelayDataLen)"
  by (auto simp: encryptRelayLocked_def Let_def split: if_splits prod.splits)

lemma encryptRelayLocked_advances:
  assumes "Hops c \<noteq> []" "length data \<le> MaxRelayDataLen"
  shows "\<exists>c' cell. encryptRelayLocked c cmd sid data rnd = (c', Inr cell)
     \<and> Link c' = Link c \<and> RelayEarlySent c' = RelayEarlySent c \<and> ID c' = ID c
     \<and> map (\<lambda>h. used (kf h)) (Hops c') = map (\<lambda>h. used (kf h) + 509) (Hops c)
     \<and> absorbed (df (last (Hops c')))
          = absorbed (df (last (Hops c))) @ relay_plaintext cmd sid data rnd
     \<and> length cell = 514 \<and> Command cell = CmdRelay"
proof -
  let ?payload = "relay_plaintext cmd sid data rnd"
  let ?hop = "last (Hops c)"
  let ?df' = "hash_Write (df ?hop) ?payload"
  let ?payload' = "copy_at ?payload relayDigestOff (take 4 (hash_Sum ?df'))"
  let ?hops1 = "butlast (Hops c) @ [?hop\<lparr>df := ?df'\<rparr>]"
  obtain hs2 enc where el: "encrypt_layers ?hops1 ?payload' = (hs2, enc)"
    by (cases "encrypt_layers ?hops1 ?payload'")
  from encrypt_layers_props [OF el] have p:
    "length enc = 509" "length hs2 = length ?hops1"
    "map (\<lambda>h. used (kf h)) hs2 = map (\<lambda>h. used (kf h) + 509) ?hops1"
    "map df hs2 = map df ?hops1" by simp_all
  have h1: "map (\<lambda>h. used (kf h) + 509) ?hops1 = map (\<lambda>h. used (kf h) + 509) (Hops c)"
  proof -
    have "map (\<lambda>h. used (kf h) + 509) (butlast (Hops c) @ [last (Hops c)])
            = map (\<lambda>h. used (kf h) + 509) (Hops c)"
      using assms(1) by simp
    then show ?thesis by simp
  qed
  have ne2: "hs2 \<noteq> []" using p(2) by auto
  have "df (last hs2) = last (map df hs2)" using ne2 by (simp add: last_map)
  also have "\<dots> = ?df'" using p(4) by simp
  finally have d: "absorbed (df (last hs2)) = absorbed (df ?hop) @ ?payload"
    by (simp add: hash_Write_def)
  have cellp: "length (copy_at (NewFixedCell (ID c) CmdRelay) 5 enc) = 514"
      "Command (copy_at (NewFixedCell (ID c) CmdRelay) 5 enc) = CmdRelay"
    by (simp_all add: NewFixedCell_def PutUint32_def FixedCellLen_def Command_def copy_at_def)
  have "encryptRelayLocked c cmd sid data rnd
          = (c\<lparr>Hops := hs2\<rparr>, Inr (copy_at (NewFixedCell (ID c) CmdRelay) 5 enc))"
    using assms el by (simp add: encryptRelayLocked_def Let_def)
  with p h1 d cellp show ?thesis by simp
qed

lemma decryptRelayLocked_frame:
  "decryptRelayLocked c cell = (c', r) \<Longrightarrow>
   Link c' = Link c \<and> RelayEarlySent c' = RelayEarlySent c \<and> ID c' = ID c"
  by (auto simp: decryptRelayLocked_def split: if_splits prod.splits)

lemma ReceiveRelay_frame:
  "ReceiveRelay c = (c', r) \<Longrightarrow>
   RelayEarlySent c' = RelayEarlySent c \<and> Written (Link c') = Written (Link c)
   \<and> WriteFails (Link c') = WriteFails (Link c) \<and> ID c' = ID c"
proof (induction c arbitrary: c' r rule: ReceiveRelay.induct)
  case (1 c)
  obtain res rest where rc: "ReadCell (Reader (Link c)) = (res, rest)"
    by (cases "ReadCell (Reader (Link c))")
  show ?case
  proof (cases res)
    case (Inl e)
    with rc "1.prems" show ?thesis
      by (subst (asm) ReceiveRelay.simps) (auto simp: set_Reader_def)
  next
    case (Inr incoming)
    show ?thesis
    proof (cases "Command incoming = CmdPadding")
      case True
      with rc Inr "1.prems" have "ReceiveRelay (set_Reader c rest) = (c', r)"
        by (subst (asm) ReceiveRelay.simps) simp
      from "1.IH" [OF rc [symmetric] _ True this] Inr show ?thesis
        by (simp add: set_Reader_def)
    next
      case False
      with rc Inr "1.prems" show ?thesis
        by (subst (asm) ReceiveRelay.simps)
           (auto simp: set_Reader_def dest!: decryptRelayLocked_frame split: if_splits)
    qed
  qed
qed

lemma circuit_write_props:
  "circuit_write c cell = (c', r) \<Longrightarrow>
     RelayEarlySent c' = RelayEarlySent c \<and> Hops c' = Hops c \<and> ID c' = ID c
     \<and> WriteFails (Link c') = WriteFails (Link c)
     \<and> (Written (Link c') = Written (Link c) \<or> Written (Link c') = Written (Link c) @ [cell])"
  by (auto simp: circuit_write_def WriteCell_def split: if_splits)

lemma Command_early_cell [simp]:
  "Command (copy_at (NewFixedCell cid CmdRelayEarly) 5 pl) = CmdRelayEarly"
  by (simp add: NewFixedCell_def PutUint32_def FixedCellLen_def Command_def copy_at_def)

lemma SendRelayEarly_budget:
  assumes "SendRelayEarly c payload = (c', r)"
  shows "(RelayEarlySent c < 8 \<longrightarrow> RelayEarlySent c' = RelayEarlySent c + 1)
    \<and> (8 \<le> RelayEarlySent c \<longrightarrow> c' = c \<and> r = Some (ErrRelayEarlyExhausted (RelayEarlySent c)))
    \<and> (Written (Link c') \<noteq> Written (Link c) \<longrightarrow>
          RelayEarlySent c < 8 \<and> RelayEarlySent c' = RelayEarlySent c + 1
          \<and> (\<exists>cell. Written (Link c') = Written (Link c) @ [cell] \<and> Command cell = CmdRelayEarly))"
  using assms
  by (auto simp: SendRelayEarly_def MaxRelayEarly_def Let_def circuit_write_def WriteCell_def
           split: if_splits)

lemma Extend_send_budget:
  assumes "Extend_send c pl rnd = (c', r)"
  shows "(RelayEarlySent c' = RelayEarlySent c
           \<or> RelayEarlySent c < 8 \<and> RelayEarlySent c' = RelayEarlySent c + 1)
    \<and> (8 \<le> RelayEarlySent c \<longrightarrow> Written (Link c') = Written (Link c) \<and> r \<noteq> None)
    \<and> (8 \<le> RelayEarlySent c \<and> Hops c \<noteq> [] \<and> length pl \<le> MaxRelayDataLen
          \<longrightarrow> r = Some (ErrRelayEarlyExhausted (RelayEarlySent c)))
    \<and> (Written (Link c') \<noteq> Written (Link c) \<longrightarrow>
          RelayEarlySent c < 8 \<and> RelayEarlySent c' = RelayEarlySent c + 1
          \<and> (\<exists>cell. Written (Link c') = Written (Link c) @ [cell] \<and> Command cell = CmdRelayEarly))"
proof -
  obtain c1 er where e: "encryptRelayLocked c RelayExtend2 0 pl rnd = (c1, er)"
    by (cases "encryptRelayLocked c RelayExtend2 0 pl rnd")
  note f = encryptRelayLocked_Link [OF e] encryptRelayLocked_RelayEarlySent [OF e]
  show ?thesis
  proof (cases er)
    case (Inl err)
    with e assms f have "c' = c1" "r = Some err" by (simp_all add: Extend_send_def)
    moreover from Inl e have "Hops c = [] \<or> length pl > MaxRelayDataLen"
      using encryptRelayLocked_error_iff [of c RelayExtend2 0 pl rnd] by auto
    ultimately show ?thesis using f by auto
  next
    case (Inr cell)
    with e assms f show ?thesis
      by (auto simp: Extend_send_def MaxRelayEarly_def Let_def circuit_write_def WriteCell_def
               split: if_splits)
  qed
qed


section \<open>Properties of Stream.Write\<close>

lemma Write_loop_unfold:
  "p \<noteq> [] \<Longrightarrow> \<not> (CircWindow s \<le> 0 \<or> StreamWindow s \<le> 0) \<Longrightarrow>
   Write_loop c s p t rnd =
     (case SendRelay c RelayData (Stream_ID s)
             (if length p > MaxRelayDataLen then take MaxRelayDataLen p else p) (rnd 0) of
        (c', Some err) \<Rightarrow> (c', s, t, Some err)
      | (c', None) \<Rightarrow>
          Write_loop c' (s\<lparr>CircWindow := CircWindow s - 1, StreamWindow := StreamWindow s - 1\<rparr>)
            (drop (length (if length p > MaxRelayDataLen then take MaxRelayDataLen p else p)) p)
            (t + length (if length p > MaxRelayDataLen then take MaxRelayDataLen p else p))
            (\<lambda>k. rnd (Suc k)))"
  by (subst Write_loop.simps) (simp add: Let_def)

lemma Write_loop_Nil: "Write_loop c s [] t rnd = (c, s, t, None)"
  by (subst Write_loop.simps) simp

lemma Write_loop_exhausted:
  "p \<noteq> [] \<Longrightarrow> CircWindow s \<le> 0 \<or> StreamWindow s \<le> 0 \<Longrightarrow>
   Write_loop c s p t rnd = (c, s, t, Some (ErrSendWindowExhausted (CircWindow s) (StreamWindow s)))"
  by (subst Write_loop.simps) simp

lemma data_chunks_Nil [simp]: "data_chunks [] = []"
  by (simp add: data_chunks_def MaxRelayDataLen_def)

lemma chunk_count_step:
  assumes "0 < (l::nat)"
  shows "(l + 497) div 498 = Suc ((l - 498 + 497) div 498)"
proof (cases "498 \<le> l")
  case True
  then have "l + 497 = (l - 498 + 497) + 498" by simp
  then have "(l + 497) div 498 = ((l - 498 + 497) + 498) div 498" by simp
  also have "\<dots> = Suc ((l - 498 + 497) div 498)" by simp
  finally show ?thesis .
next
  case False
  then have a: "(l - 498 + 497) div 498 = 0" by simp
  have "(l + 497) div 498 = 1"
    using assms False by (intro Euclidean_Rings.div_nat_eqI) simp_all
  with a show ?thesis by simp
qed

lemma data_chunks_Cons:
  assumes "p \<noteq> []"
  shows "data_chunks p = take MaxRelayDataLen p # data_chunks (drop MaxRelayDataLen p)"
proof -
  let ?m = "(length p - 498 + 497) div 498"
  let ?f = "\<lambda>i. take 498 (drop (498 * i) p)"
  let ?g = "\<lambda>i. take 498 (drop (498 * i) (drop 498 p))"
  from assms have "0 < length p" by simp
  then have n: "(length p + 497) div 498 = Suc ?m" by (rule chunk_count_step)
  have u: "[0 ..< Suc ?m] = 0 # map Suc [0 ..< ?m]"
    by (simp only: upt_conv_Cons [OF zero_less_Suc] map_Suc_upt)
  have fg: "?f (Suc i) = ?g i" for i
    by (simp add: add.commute)
  have "data_chunks p = map ?f [0 ..< Suc ?m]"
    unfolding data_chunks_def MaxRelayDataLen_def using n by simp
  also have "\<dots> = ?f 0 # map (\<lambda>i. ?f (Suc i)) [0 ..< ?m]"
    by (simp only: u list.map map_map o_def)
  also have "\<dots> = take 498 p # map ?g [0 ..< ?m]"
    by (simp only: fg) simp
  also have "map ?g [0 ..< ?m] = data_chunks (drop 498 p)"
    unfolding data_chunks_def MaxRelayDataLen_def by simp
  finally show ?thesis by (simp add: MaxRelayDataLen_def)
qed

lemma send_cells_props:
  "send_cells c sid ds rnd = (c', k, e) \<Longrightarrow>
     length (Written (Link c')) = length (Written (Link c)) + k
     \<and> k \<le> length ds \<and> ((e = None) = (k = length ds))"
proof (induction ds arbitrary: c rnd c' k e)
  case Nil
  then show ?case by simp
next
  case (Cons d ds)
  obtain c1 e1 where sr: "SendRelay c RelayData sid d (rnd 0) = (c1, e1)"
    by (cases "SendRelay c RelayData sid d (rnd 0)")
  show ?case
  proof (cases e1)
    case (Some err)
    with sr Cons.prems have "c' = c1" "k = 0" "e = Some err" by simp_all
    moreover have "Written (Link c1) = Written (Link c)"
      using sr Some by (auto dest: SendRelay_err_Written)
    ultimately show ?thesis by simp
  next
    case None
    obtain c2 k2 e2 where sc: "send_cells c1 sid ds (\<lambda>k. rnd (Suc k)) = (c2, k2, e2)"
      by (cases "send_cells c1 sid ds (\<lambda>k. rnd (Suc k))")
    with sr None Cons.prems have r: "c' = c2" "k = Suc k2" "e = e2" by simp_all
    have w: "length (Written (Link c1)) = length (Written (Link c)) + 1"
      using sr None by (auto dest: SendRelay_ok_Written)
    from Cons.IH [OF sc] r w show ?thesis by simp
  qed
qed

text \<open>
  The loop of \<open>Write\<close> sends the chunks that both windows allow, and counts 498 bytes
  for each cell sent.
\<close>

lemma Write_loop_spec:
  "Write_loop c s p t rnd =
     (case send_cells c (Stream_ID s) (take (cells_allowed s) (data_chunks p)) rnd of
        (c', k, e) \<Rightarrow>
          (c', s\<lparr>CircWindow := CircWindow s - int k, StreamWindow := StreamWindow s - int k\<rparr>,
           t + min (length p) (MaxRelayDataLen * k),
           (case e of
              Some err \<Rightarrow> Some err
            | None \<Rightarrow>
                if k < length (data_chunks p)
                then Some (ErrSendWindowExhausted (CircWindow s - int k) (StreamWindow s - int k))
                else None)))"
proof (induction c s p t rnd rule: Write_loop.induct)
  case (1 c s p t rnd)
  show ?case
  proof (cases "p = []")
    case True
    then show ?thesis by (simp add: Write_loop_Nil)
  next
    case ne: False
    then have dc: "data_chunks p = take MaxRelayDataLen p # data_chunks (drop MaxRelayDataLen p)"
      by (rule data_chunks_Cons)
    show ?thesis
    proof (cases "CircWindow s \<le> 0 \<or> StreamWindow s \<le> 0")
      case True
      then have "cells_allowed s = 0" by (auto simp: cells_allowed_def)
      with True ne dc show ?thesis by (simp add: Write_loop_exhausted)
    next
      case win: False
      define chunk where "chunk = (if length p > MaxRelayDataLen then take MaxRelayDataLen p else p)"
      let ?s1 = "s\<lparr>CircWindow := CircWindow s - 1, StreamWindow := StreamWindow s - 1\<rparr>"
      let ?p1 = "drop (length chunk) p"
      let ?rnd1 = "\<lambda>k. rnd (Suc k)"
      have ch: "chunk = take MaxRelayDataLen p" by (simp add: chunk_def)
      have dr: "?p1 = drop MaxRelayDataLen p" by (simp add: chunk_def)
      have lc: "length chunk = min (length p) MaxRelayDataLen" by (simp add: chunk_def)
      have ca: "cells_allowed s = Suc (cells_allowed ?s1)"
        using win by (auto simp: cells_allowed_def)
      obtain c1 e1 where sr: "SendRelay c RelayData (Stream_ID s) chunk (rnd 0) = (c1, e1)"
        by (cases "SendRelay c RelayData (Stream_ID s) chunk (rnd 0)")
      show ?thesis
      proof (cases e1)
        case (Some err)
        have "Write_loop c s p t rnd = (c1, s, t, Some err)"
          using sr Some ne win by (simp add: Write_loop_unfold chunk_def)
        moreover have "send_cells c (Stream_ID s) (take (cells_allowed s) (data_chunks p)) rnd
                         = (c1, 0, Some err)"
          using sr Some ca dc ch by simp
        ultimately show ?thesis by simp
      next
        case None
        obtain c2 k2 e2 where sc:
          "send_cells c1 (Stream_ID ?s1) (take (cells_allowed ?s1) (data_chunks ?p1)) ?rnd1
             = (c2, k2, e2)"
          by (cases "send_cells c1 (Stream_ID ?s1) (take (cells_allowed ?s1) (data_chunks ?p1)) ?rnd1")
        have lhs: "Write_loop c s p t rnd = Write_loop c1 ?s1 ?p1 (t + length chunk) ?rnd1"
          using sr None ne win by (simp add: Write_loop_unfold chunk_def)
        have ih0: "Write_loop c1 ?s1 ?p1 (t + length chunk) ?rnd1 =
           (case send_cells c1 (Stream_ID ?s1) (take (cells_allowed ?s1) (data_chunks ?p1)) ?rnd1 of
              (c', k, e) \<Rightarrow>
                (c', ?s1\<lparr>CircWindow := CircWindow ?s1 - int k, StreamWindow := StreamWindow ?s1 - int k\<rparr>,
                 t + length chunk + min (length ?p1) (MaxRelayDataLen * k),
                 (case e of
                    Some err \<Rightarrow> Some err
                  | None \<Rightarrow>
                      if k < length (data_chunks ?p1)
                      then Some (ErrSendWindowExhausted (CircWindow ?s1 - int k) (StreamWindow ?s1 - int k))
                      else None)))"
          using ne win sr None by (intro "1.IH" [of chunk c1 e1]) (auto simp: chunk_def)
        have rhs: "send_cells c (Stream_ID s) (take (cells_allowed s) (data_chunks p)) rnd
                     = (c2, Suc k2, e2)"
          using sr None sc ca dc ch dr by simp
        have st: "?s1\<lparr>CircWindow := CircWindow ?s1 - int k2, StreamWindow := StreamWindow ?s1 - int k2\<rparr>
                  = s\<lparr>CircWindow := CircWindow s - int (Suc k2),
                       StreamWindow := StreamWindow s - int (Suc k2)\<rparr>"
          by (simp add: algebra_simps)
        have w: "CircWindow ?s1 - int k2 = CircWindow s - int (Suc k2)"
                "StreamWindow ?s1 - int k2 = StreamWindow s - int (Suc k2)"
          by simp_all
        have n: "t + length chunk + min (length ?p1) (MaxRelayDataLen * k2)
                 = t + min (length p) (MaxRelayDataLen * Suc k2)"
          by (simp add: lc MaxRelayDataLen_def)
        have l: "(k2 < length (data_chunks ?p1)) = (Suc k2 < length (data_chunks p))"
          using dc dr by simp
        have "Write_loop c s p t rnd =
            (c2, s\<lparr>CircWindow := CircWindow s - int (Suc k2),
                    StreamWindow := StreamWindow s - int (Suc k2)\<rparr>,
             t + min (length p) (MaxRelayDataLen * Suc k2),
             (case e2 of
                Some err \<Rightarrow> Some err
              | None \<Rightarrow>
                  if Suc k2 < length (data_chunks p)
                  then Some (ErrSendWindowExhausted (CircWindow s - int (Suc k2))
                               (StreamWindow s - int (Suc k2)))
                  else None))"
          unfolding lhs ih0 sc prod.case
          by (simp only: n l w) simp
        then show ?thesis unfolding rhs prod.case .
      qed
    qed
  qed
qed


lemma SendRelay_result:
  assumes "Hops c \<noteq> []" "length data \<le> MaxRelayDataLen"
  shows "\<exists>c'. SendRelay c cmd sid data rnd
               = (c', if WriteFails (Link c) (length (Written (Link c)))
                      then Some ErrLinkWrite else None)
     \<and> Hops c' \<noteq> [] \<and> WriteFails (Link c') = WriteFails (Link c)
     \<and> length (Written (Link c'))
         = (if WriteFails (Link c) (length (Written (Link c)))
            then length (Written (Link c)) else length (Written (Link c)) + 1)"
proof -
  from encryptRelayLocked_advances [OF assms, of cmd sid rnd] obtain c1 cell where
    e: "encryptRelayLocked c cmd sid data rnd = (c1, Inr cell)" and l: "Link c1 = Link c"
    and u: "map (\<lambda>h. used (kf h)) (Hops c1) = map (\<lambda>h. used (kf h) + 509) (Hops c)"
    by blast
  from u have "length (Hops c1) = length (Hops c)" by (rule map_eq_imp_length_eq)
  with assms(1) have h: "Hops c1 \<noteq> []" by auto
  show ?thesis
    using e l h by (simp add: SendRelay_def circuit_write_def WriteCell_def)
qed

text \<open>
  C1, as the claim states it, fails: a write on an open stream whose circuit window is 0
  does not wait for a SENDME. It returns at once, nothing sent, with the window error.
\<close>

theorem Write_returns_window_error:
  "Write (example_circuit 0) (example_stream 0 500) [1] (\<lambda>k i. 0)
     = (example_circuit 0, example_stream 0 500, 0, Some (ErrSendWindowExhausted 0 500))"
  by (simp add: Write_def Write_loop_exhausted example_stream_def)

lemma data_chunks_499: "data_chunks (replicate 499 7) = [replicate 498 7, [7]]"
proof -
  have "data_chunks (replicate 499 7) = replicate 498 7 # data_chunks [7]"
    by (subst data_chunks_Cons) (simp_all add: MaxRelayDataLen_def)
  also have "data_chunks [7] = [[7]]"
    by (subst data_chunks_Cons) (simp_all add: MaxRelayDataLen_def)
  finally show ?thesis .
qed

lemma send_cells_example_window:
  "\<exists>c'. send_cells (example_circuit 0) 1 [replicate 498 7] (\<lambda>k i. 0) = (c', 1, None)"
proof -
  from SendRelay_result [of "example_circuit 0" "replicate 498 7" RelayData 1 "\<lambda>i. 0"]
  obtain c1 where "SendRelay (example_circuit 0) RelayData 1 (replicate 498 7) (\<lambda>i. 0) = (c1, None)"
    by (auto simp: example_circuit_def MaxRelayDataLen_def)
  then show ?thesis by simp
qed

lemma send_cells_example_link:
  "\<exists>c'. send_cells example_circuit_link_fails 1 [replicate 498 7, [7]] (\<lambda>k i. 0)
          = (c', 1, Some ErrLinkWrite)"
proof -
  from SendRelay_result [of example_circuit_link_fails "replicate 498 7" RelayData 1 "\<lambda>i. 0"]
  obtain c1 where s1: "SendRelay example_circuit_link_fails RelayData 1 (replicate 498 7) (\<lambda>i. 0)
                        = (c1, None)"
    and h1: "Hops c1 \<noteq> []" and f1: "WriteFails (Link c1) = (\<lambda>n. 1 \<le> n)"
    and w1: "length (Written (Link c1)) = 1"
    by (auto simp: example_circuit_link_fails_def example_circuit_def MaxRelayDataLen_def)
  from SendRelay_result [OF h1, of "[7]" RelayData 1 "\<lambda>i. 0"] f1 w1
  obtain c2 where "SendRelay c1 RelayData 1 [7] (\<lambda>i. 0) = (c2, Some ErrLinkWrite)"
    by (auto simp: MaxRelayDataLen_def)
  with s1 show ?thesis by simp
qed

text \<open>
  C1, amended. A write on an open stream sends the first \<open>k\<close> chunks of the data as
  RELAY_DATA cells, where \<open>k\<close> is at most the number of cells both send windows allow:
  a cell is sent only while both windows are positive, and each cell sent takes one from
  both. The write does not block. When a window is not positive while data is left, it
  returns the count of bytes already sent, 498 for each cell sent, with the
  send-window-exhausted error; when a send fails, it returns the bytes sent before it with
  that error; otherwise it returns the length of the data and no error.
\<close>

theorem Write_flow_control:
  assumes "\<not> closed s"
    and "send_cells c (Stream_ID s) (take (cells_allowed s) (data_chunks p)) rnd = (c', k, e)"
  shows "Write c s p rnd =
           (c', s\<lparr>CircWindow := CircWindow s - int k, StreamWindow := StreamWindow s - int k\<rparr>,
            min (length p) (MaxRelayDataLen * k),
            (case e of
               Some err \<Rightarrow> Some err
             | None \<Rightarrow>
                 if k < length (data_chunks p)
                 then Some (ErrSendWindowExhausted (CircWindow s - int k) (StreamWindow s - int k))
                 else None))
     \<and> length (Written (Link c')) = length (Written (Link c)) + k
     \<and> int k \<le> max 0 (min (CircWindow s) (StreamWindow s))
     \<and> k \<le> length (data_chunks p)
     \<and> ((e = None) = (k = min (cells_allowed s) (length (data_chunks p))))"
proof -
  have w: "Write c s p rnd = Write_loop c s p 0 rnd" using assms(1) by (simp add: Write_def)
  note sp = send_cells_props [OF assms(2)]
  from sp have k: "k \<le> min (cells_allowed s) (length (data_chunks p))" by simp
  then have "int k \<le> max 0 (min (CircWindow s) (StreamWindow s))"
    by (simp add: cells_allowed_def) linarith
  moreover from sp have "(e = None) = (k = min (cells_allowed s) (length (data_chunks p)))"
    by (simp add: min.commute)
  moreover have "Write c s p rnd =
           (c', s\<lparr>CircWindow := CircWindow s - int k, StreamWindow := StreamWindow s - int k\<rparr>,
            min (length p) (MaxRelayDataLen * k),
            (case e of
               Some err \<Rightarrow> Some err
             | None \<Rightarrow>
                 if k < length (data_chunks p)
                 then Some (ErrSendWindowExhausted (CircWindow s - int k) (StreamWindow s - int k))
                 else None))"
    unfolding w Write_loop_spec assms(2) prod.case by simp
  ultimately show ?thesis using sp k by simp
qed

theorem Write_flow_control_witness:
  "snd (Write (example_circuit 0) (example_stream 1 500) (replicate 499 7) (\<lambda>k i. 0))
     = ((example_stream 1 500)\<lparr>CircWindow := 0, StreamWindow := 499\<rparr>, 498,
        Some (ErrSendWindowExhausted 0 499))
   \<and> length (Written (Link (fst (Write (example_circuit 0) (example_stream 1 500)
                                    (replicate 499 7) (\<lambda>k i. 0))))) = 1
   \<and> snd (Write example_circuit_link_fails (example_stream 1000 500) (replicate 499 7) (\<lambda>k i. 0))
     = ((example_stream 1000 500)\<lparr>CircWindow := 999, StreamWindow := 499\<rparr>, 498,
        Some ErrLinkWrite)
   \<and> length (Written (Link (fst (Write example_circuit_link_fails (example_stream 1000 500)
                                    (replicate 499 7) (\<lambda>k i. 0))))) = 1"
proof -
  have o: "\<not> closed (example_stream cw sw)" for cw sw by (simp add: example_stream_def)
  have ca: "cells_allowed (example_stream 1 500) = 1" "cells_allowed (example_stream 1000 500) = 500"
    by (simp_all add: cells_allowed_def example_stream_def)
  have sid: "Stream_ID (example_stream cw sw) = 1" for cw sw by (simp add: example_stream_def)
  have tk: "take (cells_allowed (example_stream 1 500)) (data_chunks (replicate 499 7))
              = [replicate 498 7]"
           "take (cells_allowed (example_stream 1000 500)) (data_chunks (replicate 499 7))
              = [replicate 498 7, [7]]"
    by (simp_all add: ca data_chunks_499)
  obtain c1 where
    "send_cells (example_circuit 0) (Stream_ID (example_stream 1 500))
       (take (cells_allowed (example_stream 1 500)) (data_chunks (replicate 499 7))) (\<lambda>k i. 0)
     = (c1, 1, None)"
    unfolding sid tk using send_cells_example_window by blast
  from Write_flow_control [OF o this]
  have a: "Write (example_circuit 0) (example_stream 1 500) (replicate 499 7) (\<lambda>k i. 0)
             = (c1, (example_stream 1 500)\<lparr>CircWindow := 0, StreamWindow := 499\<rparr>, 498,
                Some (ErrSendWindowExhausted 0 499))"
    and a': "length (Written (Link c1)) = 1"
    by (simp_all add: data_chunks_499 example_stream_def example_circuit_def MaxRelayDataLen_def)
  obtain c2 where
    "send_cells example_circuit_link_fails (Stream_ID (example_stream 1000 500))
       (take (cells_allowed (example_stream 1000 500)) (data_chunks (replicate 499 7))) (\<lambda>k i. 0)
     = (c2, 1, Some ErrLinkWrite)"
    unfolding sid tk using send_cells_example_link by blast
  from Write_flow_control [OF o this]
  have b: "Write example_circuit_link_fails (example_stream 1000 500) (replicate 499 7) (\<lambda>k i. 0)
             = (c2, (example_stream 1000 500)\<lparr>CircWindow := 999, StreamWindow := 499\<rparr>, 498,
                Some ErrLinkWrite)"
    and b': "length (Written (Link c2)) = 1"
    by (simp_all add: data_chunks_499 example_stream_def example_circuit_link_fails_def
                      example_circuit_def MaxRelayDataLen_def)
  from a a' b b' show ?thesis by simp
qed


section \<open>Properties of the RELAY_EARLY budget\<close>

lemma length_buildExtend2Payload:
  "length (buildExtend2Payload P ri cd) \<le> 35 + length cd"
  by (auto simp: buildExtend2Payload_def Let_def PutUint16_def split: option.splits)

lemma Extend_receive_frame:
  "Extend_receive P c hs = (c', r) \<Longrightarrow>
   RelayEarlySent c' = RelayEarlySent c \<and> Written (Link c') = Written (Link c)"
  by (auto simp: Extend_receive_def Let_def dest!: ReceiveRelay_frame
           split: prod.splits sum.splits if_splits)

lemma Extend_budget:
  assumes "Extend P c ri rx rnd = (c', r)"
  shows "(RelayEarlySent c' = RelayEarlySent c
           \<or> RelayEarlySent c < 8 \<and> RelayEarlySent c' = RelayEarlySent c + 1)
    \<and> (8 \<le> RelayEarlySent c \<longrightarrow> Written (Link c') = Written (Link c) \<and> r \<noteq> None)
    \<and> (8 \<le> RelayEarlySent c \<and> Hops c \<noteq> [] \<and> ParseIP4 P (Address ri) \<noteq> None
          \<and> X25519 P rx (Basepoint P) \<noteq> None
          \<and> length (NodeID ri) = 20 \<and> length (NtorOnionKey ri) = 32
          \<longrightarrow> r = Some (ErrRelayEarlyExhausted (RelayEarlySent c)))
    \<and> (Written (Link c') \<noteq> Written (Link c) \<longrightarrow>
          RelayEarlySent c < 8 \<and> RelayEarlySent c' = RelayEarlySent c + 1
          \<and> (\<exists>cell. Written (Link c') = Written (Link c) @ [cell] \<and> Command cell = CmdRelayEarly))"
proof (cases "ParseIP4 P (Address ri)")
  case None
  with assms show ?thesis by (auto simp: Extend_def)
next
  case (Some ip4)
  show ?thesis
  proof (cases "NewHandshake P (NodeID ri) (NtorOnionKey ri) rx")
    case (Inl err)
    with Some assms have "c' = c" "r = Some err" by (simp_all add: Extend_def)
    moreover from Inl have "X25519 P rx (Basepoint P) = None"
      by (auto simp: NewHandshake_def split: option.splits)
    ultimately show ?thesis by simp
  next
    case (Inr hs)
    let ?pl = "buildExtend2Payload P ri (ClientData hs)"
    obtain c1 r1 where es: "Extend_send c ?pl rnd = (c1, r1)"
      by (cases "Extend_send c ?pl rnd")
    note b = Extend_send_budget [OF es]
    have lens: "length (NodeID ri) = 20 \<and> length (NtorOnionKey ri) = 32
                  \<longrightarrow> length ?pl \<le> MaxRelayDataLen"
      using Inr length_buildExtend2Payload [of P ri "ClientData hs"]
      by (auto simp: NewHandshake_def ClientData_def MaxRelayDataLen_def split: option.splits)
    show ?thesis
    proof (cases r1)
      case (Some err)
      with es Inr \<open>ParseIP4 P (Address ri) = Some ip4\<close> assms have "c' = c1" "r = r1"
        by (simp_all add: Extend_def Let_def)
      with b lens Some show ?thesis by auto
    next
      case None
      with es Inr \<open>ParseIP4 P (Address ri) = Some ip4\<close> assms
      have er: "Extend_receive P c1 hs = (c', r)" by (simp add: Extend_def Let_def)
      from Extend_receive_frame [OF er] b None lens show ?thesis by auto
    qed
  qed
qed

lemma Extend_send_exhausted:
  assumes "Hops c \<noteq> []" "length pl \<le> MaxRelayDataLen" "8 \<le> RelayEarlySent c"
  shows "Extend_send c pl rnd
           = (fst (encryptRelayLocked c RelayExtend2 0 pl rnd),
              Some (ErrRelayEarlyExhausted (RelayEarlySent c)))"
proof -
  from encryptRelayLocked_advances [OF assms(1,2), of RelayExtend2 0 rnd]
  obtain c1 cell where "encryptRelayLocked c RelayExtend2 0 pl rnd = (c1, Inr cell)"
    "RelayEarlySent c1 = RelayEarlySent c" by blast
  with assms(3) show ?thesis by (simp add: Extend_send_def MaxRelayEarly_def)
qed

text \<open>
  C9. A RELAY_EARLY cell reaches the link, from \<open>SendRelayEarly\<close> or from \<open>Extend\<close>, only
  when the circuit's counter is below 8, and the counter is then one higher; a counter that
  is at most 8 stays at most 8; and with the counter at 8 no cell is written and the
  attempt fails: \<open>SendRelayEarly\<close> always with the budget error, \<open>Extend\<close> with the budget
  error whenever it gets as far as sending (a parsable address, a handshake key pair,
  a circuit with a hop).
\<close>

theorem RelayEarly_budget:
  "(SendRelayEarly c payload = (c', r) \<longrightarrow>
      (Written (Link c') \<noteq> Written (Link c) \<longrightarrow>
          RelayEarlySent c < 8 \<and> RelayEarlySent c' = RelayEarlySent c + 1
          \<and> (\<exists>cell. Written (Link c') = Written (Link c) @ [cell] \<and> Command cell = CmdRelayEarly))
    \<and> (RelayEarlySent c \<le> 8 \<longrightarrow> RelayEarlySent c' \<le> 8)
    \<and> (8 \<le> RelayEarlySent c \<longrightarrow>
          r = Some (ErrRelayEarlyExhausted (RelayEarlySent c)) \<and> Written (Link c') = Written (Link c)))
   \<and> (Extend P c ri rx rnd = (c'', r') \<longrightarrow>
      (Written (Link c'') \<noteq> Written (Link c) \<longrightarrow>
          RelayEarlySent c < 8 \<and> RelayEarlySent c'' = RelayEarlySent c + 1
          \<and> (\<exists>cell. Written (Link c'') = Written (Link c) @ [cell] \<and> Command cell = CmdRelayEarly))
    \<and> (RelayEarlySent c \<le> 8 \<longrightarrow> RelayEarlySent c'' \<le> 8)
    \<and> (8 \<le> RelayEarlySent c \<longrightarrow> r' \<noteq> None \<and> Written (Link c'') = Written (Link c))
    \<and> (8 \<le> RelayEarlySent c \<and> Hops c \<noteq> [] \<and> ParseIP4 P (Address ri) \<noteq> None
          \<and> X25519 P rx (Basepoint P) \<noteq> None
          \<and> length (NodeID ri) = 20 \<and> length (NtorOnionKey ri) = 32
          \<longrightarrow> r' = Some (ErrRelayEarlyExhausted (RelayEarlySent c))))"
proof (intro conjI impI)
qed (use SendRelayEarly_budget [of c payload c' r] Extend_budget [of P c ri rx rnd c'' r'] in auto)

theorem RelayEarly_budget_witness:
  "RelayEarlySent (((\<lambda>c. fst (SendRelayEarly c [])) ^^ 8) (example_circuit 0)) = 8
   \<and> length (Written (Link (((\<lambda>c. fst (SendRelayEarly c [])) ^^ 8) (example_circuit 0)))) = 8
   \<and> snd (SendRelayEarly (((\<lambda>c. fst (SendRelayEarly c [])) ^^ 8) (example_circuit 0)) [])
         = Some (ErrRelayEarlyExhausted 8)
   \<and> length (Written (Link (fst (SendRelayEarly
         (((\<lambda>c. fst (SendRelayEarly c [])) ^^ 8) (example_circuit 0)) [])))) = 8
   \<and> snd (Extend example_primitives (example_circuit 8) example_relay (replicate 32 1) (\<lambda>i. 0))
         = Some (ErrRelayEarlyExhausted 8)"
proof -
  let ?c8 = "((\<lambda>c. fst (SendRelayEarly c [])) ^^ 8) (example_circuit 0)"
  have a: "RelayEarlySent ?c8 = 8" "length (Written (Link ?c8)) = 8"
    by (simp_all add: eval_nat_numeral SendRelayEarly_def circuit_write_def WriteCell_def
                      example_circuit_def MaxRelayEarly_def Let_def)
  have b: "SendRelayEarly ?c8 [] = (fst (SendRelayEarly ?c8 []), snd (SendRelayEarly ?c8 []))"
    by simp
  have c: "Extend example_primitives (example_circuit 8) example_relay (replicate 32 1) (\<lambda>i. 0)
        = (fst (Extend example_primitives (example_circuit 8) example_relay (replicate 32 1) (\<lambda>i. 0)),
           snd (Extend example_primitives (example_circuit 8) example_relay (replicate 32 1) (\<lambda>i. 0)))"
    by simp
  have d: "RelayEarlySent (example_circuit 8) = 8" "Hops (example_circuit 8) \<noteq> []"
     "ParseIP4 example_primitives (Address example_relay) \<noteq> None"
     "X25519 example_primitives (replicate 32 1) (Basepoint example_primitives) \<noteq> None"
     "length (NodeID example_relay) = 20" "length (NtorOnionKey example_relay) = 32"
    by (simp_all add: example_circuit_def example_primitives_def example_relay_def)
  from RelayEarly_budget [where c = ?c8 and payload = "[]"
         and c' = "fst (SendRelayEarly ?c8 [])" and r = "snd (SendRelayEarly ?c8 [])"]
       RelayEarly_budget [where c = "example_circuit 8" and P = example_primitives
         and ri = example_relay and rx = "replicate 32 1" and rnd = "\<lambda>i. 0"
         and c'' = "fst (Extend example_primitives (example_circuit 8) example_relay
                          (replicate 32 1) (\<lambda>i. 0))"
         and r' = "snd (Extend example_primitives (example_circuit 8) example_relay
                          (replicate 32 1) (\<lambda>i. 0))"]
       a b c d
  show ?thesis by simp
qed

section \<open>A failed send that moves the forward state\<close>

lemma SendRelay_error_before_write:
  "SendRelay c cmd sid data rnd = (c', Some e) \<Longrightarrow> e \<noteq> ErrLinkWrite \<Longrightarrow> c' = c"
  by (auto simp: SendRelay_def circuit_write_def WriteCell_def
           dest: encryptRelayLocked_error_unchanged split: prod.splits sum.splits if_splits)

text \<open>
  C10. \<open>Extend\<close> encrypts the EXTEND2 cell before it checks the RELAY_EARLY budget. On
  a one-hop circuit that has sent eight RELAY_EARLY cells it returns the budget error and
  writes nothing to the link, yet the hop's forward cipher has used 509 keystream bytes
  and its forward digest has absorbed 509 bytes: the claim's frame condition fails there.
\<close>

theorem Extend_exhausted_budget_advances_forward_state:
  "snd example_extend = Some (ErrRelayEarlyExhausted 8)
   \<and> Written (Link (fst example_extend)) = Written (Link (example_circuit 8))
   \<and> map (\<lambda>h. used (kf h)) (Hops (example_circuit 8)) = [0]
   \<and> map (\<lambda>h. used (kf h)) (Hops (fst example_extend)) = [509]
   \<and> length (absorbed (df (last (Hops (example_circuit 8))))) = 0
   \<and> length (absorbed (df (last (Hops (fst example_extend))))) = 509"
proof -
  let ?c = "example_circuit 8"
  let ?hs = "\<lparr>nodeID = replicate 20 2, ntorKey = replicate 32 3, ntor_x = replicate 32 1,
              ntor_X = copy_at (replicate 32 0) 0 (replicate 32 1)\<rparr>"
  let ?pl = "buildExtend2Payload example_primitives example_relay (ClientData ?hs)"
  have hops: "Hops ?c \<noteq> []" by (simp add: example_circuit_def)
  have len: "length ?pl \<le> MaxRelayDataLen"
    using length_buildExtend2Payload [of example_primitives example_relay "ClientData ?hs"]
    by (simp add: ClientData_def MaxRelayDataLen_def)
  have bud: "8 \<le> RelayEarlySent ?c" by (simp add: example_circuit_def)
  have ex: "example_extend = Extend_send ?c ?pl (\<lambda>i. 0)"
    by (simp add: example_extend_def Extend_def NewHandshake_def example_primitives_def
                  example_relay_def Let_def Extend_send_exhausted [OF hops len bud]
                  Extend_send_exhausted [OF hops len bud, unfolded example_primitives_def example_relay_def, simplified])
  from encryptRelayLocked_advances [OF hops len, of RelayExtend2 0 "\<lambda>i. 0"]
  obtain c1 cell where e: "encryptRelayLocked ?c RelayExtend2 0 ?pl (\<lambda>i. 0) = (c1, Inr cell)"
    "Link c1 = Link ?c"
    "map (\<lambda>h. used (kf h)) (Hops c1) = map (\<lambda>h. used (kf h) + 509) (Hops ?c)"
    "absorbed (df (last (Hops c1)))
       = absorbed (df (last (Hops ?c))) @ relay_plaintext RelayExtend2 0 ?pl (\<lambda>i. 0)"
    by blast
  have "example_extend = (c1, Some (ErrRelayEarlyExhausted 8))"
    using ex e(1) Extend_send_exhausted [OF hops len bud, of "\<lambda>i. 0"]
    by (simp add: example_circuit_def)
  then have r: "fst example_extend = c1" "snd example_extend = Some (ErrRelayEarlyExhausted 8)"
    by (metis fst_conv, metis snd_conv)
  have "length (absorbed (df (last (Hops c1)))) = 509"
    using e(4) by (simp add: example_circuit_def example_hop_def)
  with e(2,3) r show ?thesis
    by (simp add: example_circuit_def example_hop_def)
qed

section \<open>Properties of the stream id allocation\<close>

lemma allocStreamID_nonzero:
  "(ucast n :: 16 word) \<noteq> 0 \<Longrightarrow> allocStreamID n = (Inr (ucast n), n + 1)"
  by (subst allocStreamID.simps) (simp add: Let_def)

lemma allocStreamID_wrap:
  "(ucast n :: 16 word) = 0 \<Longrightarrow> n > 0xFFFF \<Longrightarrow> allocStreamID n = (Inl ErrStreamIDExhausted, n + 1)"
  by (subst allocStreamID.simps) (simp add: Let_def)

lemma allocStreamID_zero: "allocStreamID 0 = (Inr 1, 2)"
  by (subst allocStreamID.simps, simp add: Let_def, subst allocStreamID.simps, simp add: Let_def)

lemma allocStreamID_never_zero:
  "allocStreamID n = (Inr sid, n') \<Longrightarrow> sid \<noteq> 0"
proof (induction n rule: allocStreamID.induct)
  case (1 n)
  then show ?case
    by (subst (asm) (2) allocStreamID.simps) (auto simp: Let_def split: if_splits)
qed

lemma ucast16_zero_small: "(ucast (n::32 word) :: 16 word) = 0 \<Longrightarrow> \<not> 0xFFFF < n \<Longrightarrow> n = 0"
  apply (drule arg_cong [where f = unat])
  apply (simp add: unsigned_ucast_eq word_less_nat_alt not_less take_bit_nat_eq_self unat_eq_0)
  done

lemma allocStreamID_counter: "n \<noteq> 0 \<Longrightarrow> snd (allocStreamID n) = n + 1"
proof (cases "(ucast n :: 16 word) = 0")
  case True
  assume "n \<noteq> 0"
  with True ucast16_zero_small [of n] have "0xFFFF < n" by blast
  with True show ?thesis by (simp add: allocStreamID_wrap)
next
  case False
  then show ?thesis by (simp add: allocStreamID_nonzero)
qed

lemma word32_no_wrap:
  "unat (n :: 32 word) + k < 2 ^ 32 \<Longrightarrow> unat (n + of_nat k) = unat n + k"
  by (simp add: unat_word_ariths unat_of_nat take_bit_nat_eq_self)

lemma alloc_run_nth:
  "n \<noteq> 0 \<Longrightarrow> unat n + k < 2 ^ 32 \<Longrightarrow>
   snd (alloc_run k n) = n + of_nat k
   \<and> length (fst (alloc_run k n)) = k
   \<and> (\<forall>i<k. fst (alloc_run k n) ! i = fst (allocStreamID (n + of_nat i)))"
proof (induction k arbitrary: n)
  case 0
  then show ?case by simp
next
  case (Suc k)
  have n1: "n + 1 \<noteq> 0"
  proof
    assume "n + 1 = 0"
    then have "unat (n + of_nat 1) = 0" by simp
    moreover have "unat (n + of_nat 1) = unat n + 1"
      using Suc.prems(2) by (intro word32_no_wrap) simp
    ultimately show False by simp
  qed
  have u1: "unat (n + 1) + k < 2 ^ 32"
    using word32_no_wrap [of n 1] Suc.prems(2) by simp
  note ih = Suc.IH [OF n1 u1]
  obtain r n' where a: "allocStreamID n = (r, n')" by (cases "allocStreamID n")
  with allocStreamID_counter [OF Suc.prems(1)] have n': "n' = n + 1" by simp
  obtain rs n'' where b: "alloc_run k (n + 1) = (rs, n'')" by (cases "alloc_run k (n + 1)")
  from a b n' have run: "alloc_run (Suc k) n = (r # rs, n'')" by simp
  from ih b have c: "n'' = n + 1 + of_nat k" "length rs = k"
     "\<forall>i<k. rs ! i = fst (allocStreamID (n + 1 + of_nat i))" by simp_all
  have "\<forall>i<Suc k. (r # rs) ! i = fst (allocStreamID (n + of_nat i))"
  proof (intro allI impI)
    fix i assume "i < Suc k"
    show "(r # rs) ! i = fst (allocStreamID (n + of_nat i))"
    proof (cases i)
      case 0
      with a show ?thesis by simp
    next
      case (Suc j)
      with \<open>i < Suc k\<close> c(3) show ?thesis by (simp add: ac_simps)
    qed
  qed
  with run c show ?case by (simp add: ac_simps)
qed

text \<open>
  While the counter stays below 65536 the ids are the counter's values: the first 65535
  allocations of a process give the ids 1 to 65535, each once.
\<close>

lemma first_stream_ids:
  "i < 65535 \<Longrightarrow> fst (alloc_run 65535 nextStreamID_init) ! i = Inr (of_nat (Suc i))"
proof -
  assume i: "i < 65535"
  have "fst (alloc_run 65535 1) ! i = fst (allocStreamID (1 + of_nat i))"
    using alloc_run_nth [of 1 65535] i by simp
  moreover have u32: "unat (1 + of_nat i :: 32 word) = Suc i"
    using i word32_no_wrap [of 1 i] by simp
  moreover have u16: "unat (of_nat (Suc i) :: 16 word) = Suc i"
    using i by (simp add: unat_of_nat del: of_nat_Suc)
  moreover have "(ucast (1 + of_nat i :: 32 word) :: 16 word) = of_nat (Suc i)"
    using i u32 u16
    by (simp add: word_unat_eq_iff unsigned_ucast_eq take_bit_nat_eq_self del: of_nat_Suc)
  moreover have "(of_nat (Suc i) :: 16 word) \<noteq> 0"
    using u16 by (metis Zero_not_Suc unat_0 unsigned_0)
  ultimately show ?thesis
    by (simp add: nextStreamID_init_def allocStreamID_nonzero)
qed

text \<open>
  C4. The allocation loop fails once, when the counter passes 65535, and then goes on:
  of the first 65537 allocations of a process, the first gives id 1, the 65536th fails with
  the exhaustion error, and the 65537th gives id 1 again, whether or not the stream that
  holds id 1 is still open. Nothing in \<open>Begin\<close> looks at the live streams.
\<close>

theorem stream_id_reused_after_wrap:
  "fst (alloc_run 65537 nextStreamID_init) ! 0 = Inr 1
   \<and> fst (alloc_run 65537 nextStreamID_init) ! 65535 = Inl ErrStreamIDExhausted
   \<and> fst (alloc_run 65537 nextStreamID_init) ! 65536 = Inr 1"
proof -
  have "\<forall>i<65537. fst (alloc_run 65537 1) ! i = fst (allocStreamID (1 + of_nat i))"
    using alloc_run_nth [of 1 65537] by simp
  then have "fst (alloc_run 65537 1) ! 0 = fst (allocStreamID (1 + of_nat 0))"
       "fst (alloc_run 65537 1) ! 65535 = fst (allocStreamID (1 + of_nat 65535))"
       "fst (alloc_run 65537 1) ! 65536 = fst (allocStreamID (1 + of_nat 65536))"
    by simp_all
  then show ?thesis
    by (simp add: nextStreamID_init_def allocStreamID_nonzero allocStreamID_wrap)
qed

section \<open>Properties of the ntor handshake\<close>

lemma fold_OR_zero: "fold (\<lambda>v acc. acc OR v) b (a :: byte) = 0 \<longleftrightarrow> a = 0 \<and> (\<forall>v\<in>set b. v = 0)"
  by (induction b arbitrary: a) (auto simp: or_eq_0_iff)

lemma isZero_iff: "isZero b \<longleftrightarrow> (\<forall>v\<in>set b. v = 0)"
  by (simp add: isZero_def fold_OR_zero)

lemma take_drop_chain:
  "take 20 ks @ take 20 (drop 20 ks) @ take 16 (drop 40 ks) @ take 16 (drop 56 ks) = take 72 ks"
proof -
  have "take 72 ks = take 20 ks @ take 52 (drop 20 ks)"
    using take_add [of 20 52 ks] by simp
  also have "take 52 (drop 20 ks) = take 20 (drop 20 ks) @ take 32 (drop 40 ks)"
    using take_add [of 20 32 "drop 20 ks"] by simp
  also have "take 32 (drop 40 ks) = take 16 (drop 40 ks) @ take 16 (drop 56 ks)"
    using take_add [of 16 16 "drop 40 ks"] by simp
  finally show ?thesis by simp
qed

lemma keys_prefix:
  "take 20 (map f [0 ..< 92]) @ take 20 (drop 20 (map f [0 ..< 92]))
     @ take 16 (drop 40 (map f [0 ..< 92])) @ take 16 (drop 56 (map f [0 ..< 92]))
   = map f [0 ..< 72]"
proof -
  have "take 72 (map f [0 ..< 92]) = map f [0 ..< 72]"
    by (simp add: take_map)
  then show ?thesis using take_drop_chain [of "map f [0 ..< 92]"] by simp
qed

lemma Complete_success:
  assumes "X25519 P (ntor_x hs) (take 32 serverData) = Some xY"
      and "X25519 P (ntor_x hs) (ntorKey hs) = Some xB"
      and "\<not> isZero xY" "\<not> isZero xB"
      and "HMAC_SHA256 P (bytes_of ''ntor-curve25519-sha256-1:mac'')
                (spec_auth_input P hs xY xB (take 32 serverData)) = take 32 (drop 32 serverData)"
  shows "Complete P hs serverData =
           (hs\<lparr>ntor_x := clear (ntor_x hs)\<rparr>,
            Inr \<lparr>Df = take 20 (map (HKDF_SHA256 P (spec_secret_input hs xY xB (take 32 serverData))
                             (bytes_of ''ntor-curve25519-sha256-1:key_extract'')
                             (bytes_of ''ntor-curve25519-sha256-1:key_expand'')) [0 ..< 92]),
                 Db = take 20 (drop 20 (map (HKDF_SHA256 P (spec_secret_input hs xY xB (take 32 serverData))
                             (bytes_of ''ntor-curve25519-sha256-1:key_extract'')
                             (bytes_of ''ntor-curve25519-sha256-1:key_expand'')) [0 ..< 92])),
                 Kf = take 16 (drop 40 (map (HKDF_SHA256 P (spec_secret_input hs xY xB (take 32 serverData))
                             (bytes_of ''ntor-curve25519-sha256-1:key_extract'')
                             (bytes_of ''ntor-curve25519-sha256-1:key_expand'')) [0 ..< 92])),
                 Kb = take 16 (drop 56 (map (HKDF_SHA256 P (spec_secret_input hs xY xB (take 32 serverData))
                             (bytes_of ''ntor-curve25519-sha256-1:key_extract'')
                             (bytes_of ''ntor-curve25519-sha256-1:key_expand'')) [0 ..< 92]))\<rparr>)"
  using assms
  by (simp add: Complete_def Let_def ntorHMAC_def spec_auth_input_def spec_secret_input_def
                protoID_def tMac_def tVerify_def tKey_def mExpand_def)

lemma Complete_failure:
  "X25519 P (ntor_x hs) (take 32 serverData) = None \<or> X25519 P (ntor_x hs) (ntorKey hs) = None
   \<or> (\<exists>xY xB. X25519 P (ntor_x hs) (take 32 serverData) = Some xY
               \<and> X25519 P (ntor_x hs) (ntorKey hs) = Some xB
               \<and> (isZero xY \<or> isZero xB
                   \<or> HMAC_SHA256 P (bytes_of ''ntor-curve25519-sha256-1:mac'')
                        (spec_auth_input P hs xY xB (take 32 serverData))
                      \<noteq> take 32 (drop 32 serverData)))
   \<Longrightarrow> \<exists>e. Complete P hs serverData = (hs, Inl e)"
  by (auto simp: Complete_def Let_def ntorHMAC_def spec_auth_input_def spec_secret_input_def
                protoID_def tMac_def tVerify_def tKey_def mExpand_def split: option.splits)

text \<open>
  C3. Given the server's response \<open>Y || AUTH\<close>, \<open>Complete\<close> fails when \<open>x.Y\<close> or \<open>x.B\<close>
  is all zero (or when the library refuses to compute it, as Go's \<open>X25519\<close> does for a
  product that is all zero) and when \<open>HMAC-SHA256(t_mac, auth_input)\<close> differs from
  \<open>AUTH\<close>. Otherwise it returns key material whose fields \<open>Df\<close>, \<open>Db\<close>, \<open>Kf\<close>, \<open>Kb\<close>, of
  lengths 20, 20, 16 and 16, are in this order the first 72 bytes of HKDF-SHA256 over
  \<open>secret_input\<close> with salt \<open>t_key\<close> and info \<open>m_expand\<close>. (That the comparison takes
  constant time is outside the model.)
\<close>

theorem Complete_ntor:
  "(X25519 P (ntor_x hs) (take 32 serverData) = None \<or> X25519 P (ntor_x hs) (ntorKey hs) = None
      \<longrightarrow> (\<exists>e. snd (Complete P hs serverData) = Inl e))
   \<and> (\<forall>xY xB. X25519 P (ntor_x hs) (take 32 serverData) = Some xY
               \<and> X25519 P (ntor_x hs) (ntorKey hs) = Some xB \<longrightarrow>
        (isZero xY \<or> isZero xB
           \<or> HMAC_SHA256 P (bytes_of ''ntor-curve25519-sha256-1:mac'')
                (spec_auth_input P hs xY xB (take 32 serverData)) \<noteq> take 32 (drop 32 serverData)
         \<longrightarrow> (\<exists>e. snd (Complete P hs serverData) = Inl e))
      \<and> (\<not> isZero xY \<and> \<not> isZero xB
           \<and> HMAC_SHA256 P (bytes_of ''ntor-curve25519-sha256-1:mac'')
                (spec_auth_input P hs xY xB (take 32 serverData)) = take 32 (drop 32 serverData)
         \<longrightarrow> (\<exists>km. snd (Complete P hs serverData) = Inr km
                \<and> Df km @ Db km @ Kf km @ Kb km
                    = map (HKDF_SHA256 P (spec_secret_input hs xY xB (take 32 serverData))
                             (bytes_of ''ntor-curve25519-sha256-1:key_extract'')
                             (bytes_of ''ntor-curve25519-sha256-1:key_expand'')) [0 ..< 72]
                \<and> length (Df km) = 20 \<and> length (Db km) = 20
                \<and> length (Kf km) = 16 \<and> length (Kb km) = 16)))"
proof (intro conjI allI impI)
  assume "X25519 P (ntor_x hs) (take 32 serverData) = None \<or> X25519 P (ntor_x hs) (ntorKey hs) = None"
  then show "\<exists>e. snd (Complete P hs serverData) = Inl e"
    using Complete_failure [of P hs serverData] by auto
next
  fix xY xB
  assume "X25519 P (ntor_x hs) (take 32 serverData) = Some xY
               \<and> X25519 P (ntor_x hs) (ntorKey hs) = Some xB"
    and "isZero xY \<or> isZero xB
           \<or> HMAC_SHA256 P (bytes_of ''ntor-curve25519-sha256-1:mac'')
                (spec_auth_input P hs xY xB (take 32 serverData)) \<noteq> take 32 (drop 32 serverData)"
  then have "\<exists>e. Complete P hs serverData = (hs, Inl e)"
    by (intro Complete_failure) blast
  then show "\<exists>e. snd (Complete P hs serverData) = Inl e" by auto
next
  fix xY xB
  assume a: "X25519 P (ntor_x hs) (take 32 serverData) = Some xY
               \<and> X25519 P (ntor_x hs) (ntorKey hs) = Some xB"
    and b: "\<not> isZero xY \<and> \<not> isZero xB
           \<and> HMAC_SHA256 P (bytes_of ''ntor-curve25519-sha256-1:mac'')
                (spec_auth_input P hs xY xB (take 32 serverData)) = take 32 (drop 32 serverData)"
  define ks where "ks = map (HKDF_SHA256 P (spec_secret_input hs xY xB (take 32 serverData))
                             (bytes_of ''ntor-curve25519-sha256-1:key_extract'')
                             (bytes_of ''ntor-curve25519-sha256-1:key_expand'')) [0 ..< 92]"
  define km where "km = \<lparr>Df = take 20 ks, Db = take 20 (drop 20 ks),
                             Kf = take 16 (drop 40 ks), Kb = take 16 (drop 56 ks)\<rparr>"
  from a b have c: "snd (Complete P hs serverData) = Inr km"
    by (simp add: Complete_success km_def ks_def)
  have d: "Df km @ Db km @ Kf km @ Kb km
             = map (HKDF_SHA256 P (spec_secret_input hs xY xB (take 32 serverData))
                             (bytes_of ''ntor-curve25519-sha256-1:key_extract'')
                             (bytes_of ''ntor-curve25519-sha256-1:key_expand'')) [0 ..< 72]"
    by (simp add: km_def ks_def keys_prefix)
  have e: "length (Df km) = 20" "length (Db km) = 20" "length (Kf km) = 16" "length (Kb km) = 16"
    by (simp_all add: km_def ks_def)
  from c d e show "\<exists>km. snd (Complete P hs serverData) = Inr km
                \<and> Df km @ Db km @ Kf km @ Kb km
                    = map (HKDF_SHA256 P (spec_secret_input hs xY xB (take 32 serverData))
                             (bytes_of ''ntor-curve25519-sha256-1:key_extract'')
                             (bytes_of ''ntor-curve25519-sha256-1:key_expand'')) [0 ..< 72]
                \<and> length (Df km) = 20 \<and> length (Db km) = 20
                \<and> length (Kf km) = 16 \<and> length (Kb km) = 16"
    by blast
qed

theorem Complete_ntor_witness:
  "(\<exists>km. snd (Complete example_primitives example_handshake (replicate 64 0)) = Inr km
         \<and> Df km @ Db km @ Kf km @ Kb km = map of_nat [0 ..< 72]
         \<and> length (Df km) = 20 \<and> length (Db km) = 20 \<and> length (Kf km) = 16 \<and> length (Kb km) = 16)
   \<and> (\<exists>e. snd (Complete example_primitives example_handshake (replicate 32 0 @ replicate 32 9))
            = Inl e)"
proof -
  have x: "X25519 example_primitives (ntor_x example_handshake) (take 32 (replicate 64 0))
             = Some (replicate 32 1)"
          "X25519 example_primitives (ntor_x example_handshake)
             (take 32 (replicate 32 0 @ replicate 32 9)) = Some (replicate 32 1)"
          "X25519 example_primitives (ntor_x example_handshake) (ntorKey example_handshake)
             = Some (replicate 32 1)"
    by (simp_all add: example_primitives_def)
  have z: "\<not> isZero (replicate 32 1)" by (simp add: isZero_iff)
  have h: "HMAC_SHA256 example_primitives k m = replicate 32 0" for k m
    by (simp add: example_primitives_def)
  have k: "HKDF_SHA256 example_primitives s salt info = of_nat" for s salt info
    by (simp add: example_primitives_def fun_eq_iff)
  from Complete_ntor [of example_primitives example_handshake "replicate 64 0"]
       Complete_ntor [of example_primitives example_handshake "replicate 32 0 @ replicate 32 9"]
       x z
  show ?thesis by (simp add: h k)
qed

section \<open>Properties of the hs-ntor handshake\<close>

lemma HsNtor_failure_state:
  "snd (HsNtorClientCompleteHandshake P st pk auth) = Inl e \<Longrightarrow>
   fst (HsNtorClientCompleteHandshake P st pk auth) = st"
  by (auto simp: HsNtorClientCompleteHandshake_def Let_def split: option.splits if_splits)

lemma HsNtor_success_state:
  "snd (HsNtorClientCompleteHandshake P st pk auth) = Inr seed \<Longrightarrow>
   hs_x (fst (HsNtorClientCompleteHandshake P st pk auth)) = replicate (length (hs_x st)) 0"
  by (auto simp: HsNtorClientCompleteHandshake_def Let_def clear_def split: option.splits if_splits)

lemma Complete_failure_state:
  "snd (Complete P hs sd) = Inl e \<Longrightarrow> fst (Complete P hs sd) = hs"
  by (auto simp: Complete_def Let_def split: option.splits if_splits)

text \<open>
  C8. \<open>HsNtorClientCompleteHandshake\<close> zeroes the ephemeral secret only on success. Given
  a RENDEZVOUS2 whose AUTH does not verify it returns the error and leaves the state as it
  was, the secret scalar \<open>x\<close> included; the state has no \<open>Close\<close> and the caller drops it.
\<close>

theorem HsNtor_bad_auth_keeps_secret:
  "HsNtorClientCompleteHandshake example_primitives example_hs_state (replicate 32 5) (replicate 32 9)
     = (example_hs_state, Inl ErrAuthFailed)
   \<and> hs_x example_hs_state = replicate 32 7"
  by (simp add: HsNtorClientCompleteHandshake_def Let_def example_primitives_def
                example_hs_state_def isZero_iff hsMAC_def)

section \<open>Properties of the HSDir selection\<close>

lemma go_rem_1 [simp]: "go_rem a 1 = 0"
  by (simp add: go_rem_def)

lemma spread_loop_stuck_aux:
  assumes "spread_loop ring start count offset selected result = Some y"
  shows "\<not> (length ring = 1 \<and> count < 3 \<and> Relay_at (ring ! 0) \<in> set selected)"
proof (rule spread_loop.raw_induct
         [where P = "\<lambda>ring start count offset selected result y.
                       \<not> (length ring = 1 \<and> count < 3 \<and> Relay_at (ring ! 0) \<in> set selected)",
          OF _ assms], goal_cases)
  case (1 f ring start count offset selected result y)
  show ?case
  proof
    assume a: "length ring = 1 \<and> count < 3 \<and> Relay_at (ring ! 0) \<in> set selected"
    with 1(2) have "f ring start count (int64 (offset + 1)) selected result = Some y"
      by (simp add: hsdirSpreadFetch_def Let_def)
    from 1(1) [OF this] a show False by simp
  qed
qed

lemma spread_loop_stuck:
  "length ring = 1 \<Longrightarrow> count < 3 \<Longrightarrow> Relay_at (ring ! 0) \<in> set selected \<Longrightarrow>
   spread_loop ring start count offset selected result = None"
  using spread_loop_stuck_aux [of ring start count offset selected result]
  by (cases "spread_loop ring start count offset selected result") auto

lemma spread_loop_first:
  "length ring = 1 \<Longrightarrow>
   spread_loop ring start 0 0 [] [] = Some (Inr ([Relay_at (ring ! 0)], [Relay_at (ring ! 0)]))"
  by (subst spread_loop.simps) (simp add: hsdirSpreadFetch_def Let_def)

lemma replica_loop_single:
  "length ring = 1 \<Longrightarrow>
   replica_loop P ring blindedKey periodNum periodLength [1, 2] [] [] = None"
  by (simp add: Let_def spread_loop_first spread_loop_stuck)

lemma insert_entry_length [simp]: "length (insert_entry e ys) = Suc (length ys)"
  by (induction ys) auto

lemma sort_ring_length [simp]: "length (sort_ring ring) = length ring"
  by (induction ring) (auto simp: sort_ring_def)

lemma SelectHSDirs_single:
  "srv \<noteq> [] \<Longrightarrow> length (build_ring P consensus srv periodNum periodLength) = 1 \<Longrightarrow>
   SelectHSDirs P consensus blindedKey periodNum periodLength srv = None"
proof -
  assume a: "srv \<noteq> []" "length (build_ring P consensus srv periodNum periodLength) = 1"
  have m: "map int [1 ..< nat hsdirNReplicas + 1] = [1, 2]"
    by (simp add: hsdirNReplicas_def upt_rec)
  have r: "replica_loop P (sort_ring (build_ring P consensus srv periodNum periodLength))
          blindedKey periodNum periodLength [1, 2] [] [] = None"
    using a(2) by (intro replica_loop_single) simp
  have n: "length srv \<noteq> 0"
          "length (build_ring P consensus srv periodNum periodLength) \<noteq> 0"
    using a by simp_all
  show ?thesis
    unfolding SelectHSDirs_def Let_def m r using n by (simp del: replica_loop.simps)
qed

text \<open>
  Once every relay of the ring is selected, the loop of a replica can only spin: each pass
  finds a selected relay and continues, the count stays below 3 and the exhaustion check
  after a selection is never reached. The loop returns no selection; it ends, if at all,
  when the offset has wrapped around and the index panics.
\<close>

lemma go_rem_bound: "0 < n \<Longrightarrow> 0 \<le> go_rem a (int n) \<Longrightarrow> nat (go_rem a (int n)) < n"
proof -
  assume n: "0 < n" and p: "0 \<le> go_rem a (int n)"
  have "\<bar>a\<bar> mod int n < int n" using n by simp
  moreover have "0 \<le> \<bar>a\<bar> mod int n" using n by simp
  then have "go_rem a (int n) \<le> \<bar>a\<bar> mod int n"
    by (cases "a < 0"; cases "a = 0") (auto simp: go_rem_def sgn_if)
  ultimately show ?thesis using p by linarith
qed

lemma spread_loop_all_selected:
  assumes "spread_loop ring start count offset selected result = Some y"
  shows "ring \<noteq> [] \<and> count < 3 \<and> list_all (\<lambda>e. Relay_at e \<in> set selected) ring
           \<longrightarrow> y = Inl Panic"
proof (rule spread_loop.raw_induct
         [where P = "\<lambda>ring start count offset selected result y.
                       ring \<noteq> [] \<and> count < 3 \<and> list_all (\<lambda>e. Relay_at e \<in> set selected) ring
                       \<longrightarrow> y = Inl Panic",
          OF _ assms], goal_cases)
  case (1 f ring start count offset selected result y)
  show ?case
  proof
    assume a: "ring \<noteq> [] \<and> count < 3 \<and> list_all (\<lambda>e. Relay_at e \<in> set selected) ring"
    let ?pos = "go_rem (int64 (start + offset)) (int (length ring))"
    show "y = Inl Panic"
    proof (cases "?pos < 0")
      case True
      with a 1(2) show ?thesis by (simp add: hsdirSpreadFetch_def Let_def)
    next
      case False
      then have "nat ?pos < length ring" using a by (intro go_rem_bound) auto
      then have "Relay_at (ring ! nat ?pos) \<in> set selected"
        using a by (auto simp: list_all_length)
      with False a 1(2)
      have "f ring start count (int64 (offset + 1)) selected result = Some y"
        by (simp add: hsdirSpreadFetch_def Let_def)
      from 1(1) [OF this] a show ?thesis by simp
    qed
  qed
qed

text \<open>
  C7. On a consensus whose only relay has the HSDir, Running and Valid flags and an Ed25519
  identity, replica 1 selects that relay and leaves its loop; the loop of replica 2 then
  finds the one relay of the ring selected on every pass, and \<open>SelectHSDirs\<close> never
  returns.
\<close>

theorem SelectHSDirs_single_HSDir_never_returns:
  "SelectHSDirs example_primitives example_consensus (replicate 32 0x42) 16904 1440
     (SharedRandCurrentValue example_consensus) = None
   \<and> length (Relays example_consensus) = 1
   \<and> list_all (\<lambda>r. HSDir (Flags r) \<and> Running (Flags r) \<and> Valid (Flags r) \<and> HasEd25519 r)
        (Relays example_consensus)"
proof -
  have "length (build_ring example_primitives example_consensus
                  (SharedRandCurrentValue example_consensus) 16904 1440) = 1"
    by (simp add: build_ring_def example_consensus_def Let_def)
  moreover have "SharedRandCurrentValue example_consensus \<noteq> []"
    by (simp add: example_consensus_def)
  ultimately show ?thesis
    by (simp add: SelectHSDirs_single) (simp add: example_consensus_def)
qed

section \<open>Properties of onion decryption\<close>

lemma Uint16_zero_iff: "Uint16 hi lo = 0 \<longleftrightarrow> hi = 0 \<and> lo = 0"
  by (auto simp: Uint16_def unat_eq_0)

lemma copy_at_zero_digest:
  "9 \<le> length p \<Longrightarrow> copy_at p 5 [0, 0, 0, 0] = zero_digest p"
  by (auto simp: copy_at_def zero_digest_def list_eq_iff_nth_eq nth_append nth_list_update
                 nth_Cons' min_def)

lemma length_zero_digest [simp]: "length (zero_digest p) = length p"
  by (simp add: zero_digest_def)

lemma xor_zeros: "n = length p \<Longrightarrow> map2 (\<lambda>a b. a XOR b) p (replicate n (0 :: byte)) = p"
  by (induction p arbitrary: n) auto

lemma XORKeyStream_zero:
  "keystream s = (\<lambda>i. 0) \<Longrightarrow> fst (XORKeyStream s p) = p"
  by (simp add: XORKeyStream_def map_replicate_const xor_zeros)

text \<open>
  What holds of the claim: when the loop ends with the not-recognized error, every hop has
  the running backward digest it had before, also a hop that saw a zero recognized field.
\<close>

lemma decrypt_hops_unrecognized_restores:
  "decrypt_hops i hs p = (hs', Inl ErrNotRecognized) \<Longrightarrow> map db hs' = map db hs"
proof (induction hs arbitrary: i p hs')
  case Nil
  then show ?case by simp
next
  case (Cons h hs)
  obtain p1 k' where x: "XORKeyStream (kb h) p = (p1, k')" by (cases "XORKeyStream (kb h) p")
  let ?p2 = "copy_at p1 relayDigestOff [0, 0, 0, 0]"
  let ?db' = "hash_Write (db h) ?p2"
  show ?case
  proof (cases "Uint16 (p1 ! relayRecognizedOff) (p1 ! (relayRecognizedOff + 1)) = 0")
    case False
    obtain hs1 r1 where rec: "decrypt_hops (i + 1) hs p1 = (hs1, r1)"
      by (cases "decrypt_hops (i + 1) hs p1")
    with False x Cons.prems have "hs' = h\<lparr>kb := k'\<rparr> # hs1" "r1 = Inl ErrNotRecognized"
      by (auto simp: Let_def)
    with Cons.IH [of "i + 1" p1 hs1] rec show ?thesis by simp
  next
    case True
    show ?thesis
    proof (cases "marshal_ok (db h)")
      case False
      with True x Cons.prems show ?thesis by (simp add: Let_def MarshalBinary_def)
    next
      case mar: True
      show ?thesis
      proof (cases "take 4 (drop relayDigestOff p1) = take 4 (hash_Sum ?db')")
        case match: True
        with True x mar Cons.prems show ?thesis
          by (simp add: Let_def MarshalBinary_def split: if_splits)
      next
        case mismatch: False
        show ?thesis
        proof (cases "unmarshal_ok (db h)")
          case False
          with True x mar mismatch Cons.prems show ?thesis
            by (simp add: Let_def MarshalBinary_def UnmarshalBinary_def hash_Write_def)
        next
          case unm: True
          obtain hs1 r1 where rec: "decrypt_hops (i + 1) hs ?p2 = (hs1, r1)"
            by (cases "decrypt_hops (i + 1) hs ?p2")
          with True x mar mismatch unm Cons.prems
          have "hs' = h\<lparr>kb := k', db := db h\<rparr> # hs1" "r1 = Inl ErrNotRecognized"
            by (simp_all add: Let_def MarshalBinary_def UnmarshalBinary_def hash_Write_def)
          with Cons.IH [of "i + 1" ?p2 hs1] rec show ?thesis by simp
        qed
      qed
    qed
  qed
qed


lemma decrypt_hops_false_zero:
  assumes "XORKeyStream (kb h) p = (p1, k')" and "recognized_zero p1" and "9 \<le> length p1"
      and "marshal_ok (db h)" and "unmarshal_ok (db h)"
      and "take 4 (drop 5 p1) \<noteq> take 4 (alg (db h) (absorbed (db h) @ zero_digest p1))"
  shows "decrypt_hops i (h # hs) p =
           (case decrypt_hops (i + 1) hs (zero_digest p1) of
              (hs', r) \<Rightarrow> (h\<lparr>kb := k', db := db h\<rparr> # hs', r))"
proof -
  have z: "Uint16 (p1 ! relayRecognizedOff) (p1 ! (relayRecognizedOff + 1)) = 0"
    using assms(2) by (simp add: recognized_zero_def Uint16_zero_iff relayRecognizedOff_def numeral_2_eq_2)
  have p2: "copy_at p1 relayDigestOff [0, 0, 0, 0] = zero_digest p1"
    using assms(3) by (simp add: relayDigestOff_def copy_at_zero_digest)
  have mar: "MarshalBinary (db h) = Some (absorbed (db h))"
    using assms(4) by (simp add: MarshalBinary_def)
  have unm: "UnmarshalBinary (hash_Write (db h) (zero_digest p1)) (absorbed (db h)) = Some (db h)"
    using assms(5) by (simp add: UnmarshalBinary_def hash_Write_def)
  have neq: "take 4 (drop relayDigestOff p1) \<noteq> take 4 (hash_Sum (hash_Write (db h) (zero_digest p1)))"
    using assms(6) by (simp add: hash_Sum_def hash_Write_def relayDigestOff_def)
  show ?thesis
    using z neq by (simp add: assms(1) p2 mar unm Let_def)
qed

lemma decrypt_hops_match:
  assumes "XORKeyStream (kb h) p = (p1, k')" and "recognized_zero p1" and "9 \<le> length p1"
      and "marshal_ok (db h)"
      and "take 4 (drop 5 p1) = take 4 (alg (db h) (absorbed (db h) @ zero_digest p1))"
      and "Uint16 (zero_digest p1 ! 9) (zero_digest p1 ! 10) \<le> MaxRelayDataLen"
  shows "decrypt_hops i (h # hs) p =
           (h\<lparr>kb := k', db := hash_Write (db h) (zero_digest p1)\<rparr> # hs,
            Inr (i, zero_digest p1 ! 0, of_nat (Uint16 (zero_digest p1 ! 3) (zero_digest p1 ! 4)),
                 take (Uint16 (zero_digest p1 ! 9) (zero_digest p1 ! 10)) (drop 11 (zero_digest p1))))"
proof -
  have z: "Uint16 (p1 ! relayRecognizedOff) (p1 ! (relayRecognizedOff + 1)) = 0"
    using assms(2) by (simp add: recognized_zero_def Uint16_zero_iff relayRecognizedOff_def numeral_2_eq_2)
  have p2: "copy_at p1 relayDigestOff [0, 0, 0, 0] = zero_digest p1"
    using assms(3) by (simp add: relayDigestOff_def copy_at_zero_digest)
  have mar: "MarshalBinary (db h) = Some (absorbed (db h))"
    using assms(4) by (simp add: MarshalBinary_def)
  have eq: "take 4 (drop relayDigestOff p1) = take 4 (hash_Sum (hash_Write (db h) (zero_digest p1)))"
    using assms(5) by (simp add: hash_Sum_def hash_Write_def relayDigestOff_def)
  have dl: "\<not> Uint16 (zero_digest p1 ! relayLengthOff) (zero_digest p1 ! (relayLengthOff + 1)) > MaxRelayDataLen"
    using assms(6) by (simp add: relayLengthOff_def)
  show ?thesis
    using z eq dl
    by (simp add: assms(1) p2 mar Let_def relayCommandOff_def relayStreamIDOff_def
                  relayLengthOff_def relayDataOff_def)
qed

lemma XORKeyStream_nth:
  "i < length p \<Longrightarrow> fst (XORKeyStream s p) ! i = p ! i XOR keystream s (used s + i)"
  by (simp add: XORKeyStream_def)

lemma XORKeyStream_keyed:
  assumes "5 < length p"
  shows "fst (XORKeyStream (kb example_hop_keyed) p) = p[5 := p ! 5 XOR 1]"
proof (rule nth_equalityI)
  show "length (fst (XORKeyStream (kb example_hop_keyed) p)) = length (p[5 := p ! 5 XOR 1])"
    by simp
next
  fix i assume "i < length (fst (XORKeyStream (kb example_hop_keyed) p))"
  then have "i < length p" by simp
  then show "fst (XORKeyStream (kb example_hop_keyed) p) ! i = p[5 := p ! 5 XOR 1] ! i"
    by (simp add: XORKeyStream_nth nth_list_update example_hop_keyed_def)
qed



lemma example_payload_length [simp]:
  "length example_payload = 509" "length example_payload_zeroed = 509"
  by (simp_all add: example_payload_def example_payload_zeroed_def)

lemma example_payload_fields:
  "recognized_zero example_payload" "recognized_zero example_payload_zeroed"
  "take 4 (drop 5 example_payload) = [1, 0, 0, 0]"
  "take 4 (drop 5 example_payload_zeroed) = [0, 0, 0, 0]"
  "example_payload ! 5 = 1" "example_payload_zeroed ! 5 = 0"
  "example_payload_zeroed ! 0 = 2" "example_payload_zeroed ! 3 = 0"
  "example_payload_zeroed ! 4 = 7" "example_payload_zeroed ! 9 = 0"
  "example_payload_zeroed ! 10 = 0"
  by (simp_all add: example_payload_def example_payload_zeroed_def recognized_zero_def nth_append)

lemma example_payload_updates:
  "zero_digest example_payload = example_payload_zeroed"
  "zero_digest example_payload_zeroed = example_payload_zeroed"
  "example_payload[5 := 0] = example_payload_zeroed"
  "example_payload_zeroed[5 := 1] = example_payload"
  by (simp_all add: example_payload_def example_payload_zeroed_def zero_digest_def
                    eval_nat_numeral)

lemma example_cell_payload:
  "Payload example_cell_false_zero = example_payload" "length example_cell_false_zero = 514"
  by (simp_all add: example_cell_false_zero_def Command_def Payload_def IsVariableLength_def
                    CmdVersions_def)

lemma example_keyed_layers:
  "fst (XORKeyStream (kb example_hop_keyed) example_payload) = example_payload_zeroed"
  "fst (XORKeyStream (kb example_hop_keyed) example_payload_zeroed) = example_payload"
  by (simp_all add: XORKeyStream_keyed example_payload_fields example_payload_updates)


text \<open>
  C2 fails on the code. The loop restores a hop's running digest after a recognized field
  that is zero by coincidence, as the claim says, but it leaves the digest field of the
  payload zeroed, so the next hop does not remove its layer from the bytes that arrived.
  The same cell on two circuits of two hops, whose first hop sees a zero recognized field
  and a digest that does not match: where the second hop recognizes the peeled cell,
  \<open>decryptRelayLocked\<close> returns the not-recognized error; where no hop recognizes the
  peeled cell, \<open>decryptRelayLocked\<close> delivers it as a message of the second hop, whose
  running digest absorbs it.
\<close>

theorem decryptRelayLocked_false_zero_corrupts_payload:
  "hop_recognizes (Hops (example_circuit_two example_hop_keyed) ! 1)
     (peeled (Hops (example_circuit_two example_hop_keyed)) (Payload example_cell_false_zero) 1)
   \<and> snd (decryptRelayLocked (example_circuit_two example_hop_keyed) example_cell_false_zero)
       = Inl ErrNotRecognized
   \<and> hop_recognizes (Hops (example_circuit_two example_hop) ! 0)
       (peeled (Hops (example_circuit_two example_hop)) (Payload example_cell_false_zero) 0) = False
   \<and> hop_recognizes (Hops (example_circuit_two example_hop) ! 1)
       (peeled (Hops (example_circuit_two example_hop)) (Payload example_cell_false_zero) 1) = False
   \<and> snd (decryptRelayLocked (example_circuit_two example_hop) example_cell_false_zero)
       = Inr (1, 2, 7, [])
   \<and> absorbed (db (Hops (example_circuit_two example_hop) ! 1)) = []
   \<and> absorbed (db (Hops (fst (decryptRelayLocked (example_circuit_two example_hop)
                                 example_cell_false_zero)) ! 1))
       = example_payload_zeroed"
proof -
  let ?P = example_payload
  let ?Z = example_payload_zeroed
  note ef = example_payload_fields
  note eu = example_payload_updates
  have k0: "keystream (kb example_hop) = (\<lambda>i. 0)" by (simp add: example_hop_def)
  have hb: "Hops (example_circuit_two h) = [example_hop, h]" for h
    by (simp add: example_circuit_two_def)
  have dbz: "marshal_ok (db example_hop)" "unmarshal_ok (db example_hop)"
    "alg (db example_hop) m = replicate 20 0" "absorbed (db example_hop) = []"
    "db example_hop_keyed = db example_hop" for m
    by (simp_all add: example_hop_def example_hop_keyed_def)
  have r4: "replicate 4 (0::byte) = [0, 0, 0, 0]" by (simp add: numeral_eq_Suc)
  obtain a0 where x0: "XORKeyStream (kb example_hop) ?P = (?P, a0)"
    using XORKeyStream_zero [OF k0, of ?P] by (cases "XORKeyStream (kb example_hop) ?P") simp
  obtain a1 where x1: "XORKeyStream (kb example_hop) ?Z = (?Z, a1)"
    using XORKeyStream_zero [OF k0, of ?Z] by (cases "XORKeyStream (kb example_hop) ?Z") simp
  obtain b1 where y1: "XORKeyStream (kb example_hop_keyed) ?Z = (?P, b1)"
    using example_keyed_layers(2) by (cases "XORKeyStream (kb example_hop_keyed) ?Z") simp
  \<comment> \<open>Hop 0 sees a zero recognized field and a digest that does not match.\<close>
  have "decrypt_hops 0 (example_hop # hs) ?P =
      (case decrypt_hops (0 + 1) hs (zero_digest ?P) of
         (hs', r) \<Rightarrow> (example_hop\<lparr>kb := a0, db := db example_hop\<rparr> # hs', r))" for hs
    by (rule decrypt_hops_false_zero [OF x0]) (simp_all add: ef eu dbz r4)
  then have s0: "decrypt_hops 0 (example_hop # hs) ?P =
      (case decrypt_hops (Suc 0) hs ?Z of
         (hs', r) \<Rightarrow> (example_hop\<lparr>kb := a0, db := db example_hop\<rparr> # hs', r))" for hs
    by (simp only: eu) simp
  \<comment> \<open>Hop 1 with the keyed stream decrypts the zeroed digest field to \<open>01 00 00 00\<close>.\<close>
  have "decrypt_hops (Suc 0) [example_hop_keyed] ?Z =
      (case decrypt_hops (Suc 0 + 1) [] (zero_digest ?P) of
         (hs', r) \<Rightarrow> (example_hop_keyed\<lparr>kb := b1, db := db example_hop_keyed\<rparr> # hs', r))"
    by (rule decrypt_hops_false_zero [OF y1]) (simp_all add: ef eu dbz r4)
  then have s1: "decrypt_hops (Suc 0) [example_hop_keyed] ?Z =
      ([example_hop_keyed\<lparr>kb := b1, db := db example_hop_keyed\<rparr>], Inl ErrNotRecognized)"
    by simp
  \<comment> \<open>Hop 1 with the zero stream finds the zeroed digest field equal to its digest.\<close>
  have "decrypt_hops (Suc 0) [example_hop] ?Z =
           ([example_hop\<lparr>kb := a1, db := hash_Write (db example_hop) (zero_digest ?Z)\<rparr>],
            Inr (Suc 0, zero_digest ?Z ! 0, of_nat (Uint16 (zero_digest ?Z ! 3) (zero_digest ?Z ! 4)),
                 take (Uint16 (zero_digest ?Z ! 9) (zero_digest ?Z ! 10)) (drop 11 (zero_digest ?Z))))"
    by (rule decrypt_hops_match [OF x1])
       (simp_all add: ef eu dbz r4 Uint16_def MaxRelayDataLen_def)
  then have s2: "decrypt_hops (Suc 0) [example_hop] ?Z =
      ([example_hop\<lparr>kb := a1, db := hash_Write (db example_hop) ?Z\<rparr>], Inr (Suc 0, 2, 7, []))"
    by (simp add: ef eu Uint16_def)
  have pl: "length example_cell_false_zero \<ge> 5"
           "length (Payload example_cell_false_zero) = 509"
           "take RelayPayloadLen (Payload example_cell_false_zero) = ?P"
    by (simp_all add: example_cell_payload RelayPayloadLen_def)
  have rB: "decryptRelayLocked (example_circuit_two example_hop_keyed) example_cell_false_zero
       = ((example_circuit_two example_hop_keyed)
            \<lparr>Hops := [example_hop\<lparr>kb := a0, db := db example_hop\<rparr>,
                      example_hop_keyed\<lparr>kb := b1, db := db example_hop_keyed\<rparr>]\<rparr>,
          Inl ErrNotRecognized)"
    using pl by (simp add: decryptRelayLocked_def hb s0 s1 RelayPayloadLen_def del: decrypt_hops.simps)
  have rA: "decryptRelayLocked (example_circuit_two example_hop) example_cell_false_zero
       = ((example_circuit_two example_hop)
            \<lparr>Hops := [example_hop\<lparr>kb := a0, db := db example_hop\<rparr>,
                      example_hop\<lparr>kb := a1, db := hash_Write (db example_hop) ?Z\<rparr>]\<rparr>,
          Inr (1, 2, 7, []))"
    using pl by (simp add: decryptRelayLocked_def hb s0 s2 RelayPayloadLen_def del: decrypt_hops.simps)
  have hB: "hop_recognizes example_hop_keyed ?Z"
    unfolding hop_recognizes_def by (simp add: ef eu dbz r4)
  have hA: "hop_recognizes example_hop ?P = False"
    unfolding hop_recognizes_def by (simp add: ef eu dbz r4)
  show ?thesis
    unfolding rA rB hb example_cell_payload
    by (simp add: XORKeyStream_zero [OF k0] example_keyed_layers hA hB hash_Write_def dbz)
qed


end
